theory Spec2Isabelle
  imports Main "HOL-Library.Char_ord" "HOL-Library.List_Lexorder"
begin

section \<open>Python values used by termenu.py\<close>

text \<open>
  The exceptions the menu code can raise: \<open>max()\<close> of an empty sequence raises
  ValueError, \<open>options[selected]\<close> out of range raises IndexError, \<open>%\<close> by zero
  raises ZeroDivisionError. \<open>KeyboardFailure\<close> stands for any exception that the
  key-event generator \<open>keyboard.keyboard_listener()\<close> lets escape.
\<close>

datatype py_error = IndexError | ValueError | ZeroDivisionError | KeyboardFailure

text \<open>The value of \<open>self.result\<close>: \<open>None\<close>, one option, or a list of options.\<close>

datatype py_result = ResNone | ResStr string | ResList "string list"

text \<open>What a key handler returns: nothing (\<open>None\<close>), \<open>True\<close> or \<open>False\<close>.\<close>

datatype py_ret = RetNone | RetTrue | RetFalse

definition truthy :: "py_ret \<Rightarrow> bool" where
  "truthy r = (r = RetTrue)"

text \<open>\<open>xs[i]\<close>: a negative index counts from the end, anything out of range raises.\<close>

definition py_getitem :: "'a list \<Rightarrow> int \<Rightarrow> py_error + 'a" where
  "py_getitem xs i =
     (if 0 \<le> i \<and> i < int (length xs) then Inr (xs ! nat i)
      else if i < 0 \<and> - int (length xs) \<le> i then Inr (xs ! nat (int (length xs) + i))
      else Inl IndexError)"

text \<open>
  \<open>xs[a:b]\<close>: a negative bound counts from the end, and both bounds are cut to the
  list; the slice is empty when the upper bound is not above the lower one.
\<close>

definition py_slice :: "'a list \<Rightarrow> int \<Rightarrow> int \<Rightarrow> 'a list" where
  "py_slice xs a b =
     (let n = int (length xs);
          a' = (if a < 0 then max 0 (a + n) else min a n);
          b' = (if b < 0 then max 0 (b + n) else min b n)
      in take (nat (b' - a')) (drop (nat a') xs))"


text \<open>\<open>xs.index(x)\<close>: the first position of \<open>x\<close>, or nothing where Python raises ValueError.\<close>

fun py_list_index :: "'a list \<Rightarrow> 'a \<Rightarrow> int option" where
  "py_list_index [] x = None"
| "py_list_index (y # ys) x =
     (if y = x then Some 0
      else (case py_list_index ys x of None \<Rightarrow> None | Some i \<Rightarrow> Some (i + 1)))"

text \<open>\<open>str.lower()\<close> on a byte string: the letters A..Z move to a..z.\<close>

definition lower_char :: "char \<Rightarrow> char" where
  "lower_char c =
     (if (65::nat) \<le> of_char c \<and> of_char c \<le> (90::nat)
      then char_of (of_char c + (32::nat)) else c)"

definition lower :: "string \<Rightarrow> string" where
  "lower s = map lower_char s"

text \<open>\<open>p in s\<close> on strings: \<open>p\<close> occurs in \<open>s\<close> as a contiguous run.\<close>

fun starts_with :: "string \<Rightarrow> string \<Rightarrow> bool" where
  "starts_with [] s = True"
| "starts_with (c # p) [] = False"
| "starts_with (c # p) (d # s) = (c = d \<and> starts_with p s)"

fun str_in :: "string \<Rightarrow> string \<Rightarrow> bool" where
  "str_in p [] = (p = [])"
| "str_in p (d # s) = (starts_with p (d # s) \<or> str_in p s)"

section \<open>The menu object\<close>

text \<open>
  \<open>show_menu\<close> builds one of two classes from the mixins; \<open>Menu\<close> can also be used
  alone. The method resolution order of each class decides which \<open>_on_enter\<close>,
  \<open>_on_esc\<close> and \<open>_dispatch_key\<close> run:
  \<^item> \<open>PlainMenu\<close>: class \<open>Menu\<close>;
  \<^item> \<open>SearchMenu\<close>: \<open>class MenuClass(SearchMixin, Menu)\<close>;
  \<^item> \<open>MultiSelectMenu\<close>: \<open>class MenuClass(MultiSelectMixin, SearchMixin, Menu)\<close>.
\<close>

datatype menu_class = PlainMenu | SearchMenu | MultiSelectMenu

record menu =
  cls :: menu_class
  title :: string
  options :: "string list"
  width :: int
  columns :: int
  selected :: int
  height :: int
  first :: int
  result :: py_result
  searchMode :: bool
  searchText :: string
  allOptions :: "string list"
  fullHeight :: int
  indexes :: "int list"
  selectedItems :: "string set"

definition MAX_COLUMNS :: int where
  "MAX_COLUMNS = 5"

definition len_options :: "menu \<Rightarrow> int" where
  "len_options m = int (length (options m))"

subsection \<open>Construction\<close>

text \<open>
  \<open>get_terminal_size()\<close> asks the terminal; its answer \<open>(w, h)\<close> is a parameter
  \<open>tsize\<close> of the constructor here.
\<close>

definition compute_height :: "int \<times> int \<Rightarrow> string list \<Rightarrow> int option \<Rightarrow> int" where
  "compute_height tsize opts h =
     (let maxHeight = snd tsize - 2;
          h' = (case h of None \<Rightarrow> maxHeight | Some v \<Rightarrow> v)
      in min (int (length opts)) (min h' maxHeight))"

definition compute_columns :: "int \<times> int \<Rightarrow> int \<Rightarrow> int option \<Rightarrow> int" where
  "compute_columns tsize w c =
     (let c' = (case c of None \<Rightarrow> MAX_COLUMNS | Some v \<Rightarrow> v)
      in min c' (fst tsize div (w + 1)))"

definition compute_default :: "string list \<Rightarrow> string option \<Rightarrow> py_error + int" where
  "compute_default opts d =
     (let d' = (case d of None \<Rightarrow> 0
                | Some v \<Rightarrow> (case py_list_index opts v of None \<Rightarrow> 0 | Some i \<Rightarrow> i))
      in if opts = [] then Inl ZeroDivisionError
         else Inr (max 0 (d' mod int (length opts))))"

text \<open>\<open>max(len(option) for option in options)\<close>; ValueError on an empty list.\<close>

definition max_len :: "string list \<Rightarrow> py_error + int" where
  "max_len opts =
     (case opts of [] \<Rightarrow> Inl ValueError
      | x # xs \<Rightarrow> Inr (fold (\<lambda>y acc. max acc (int (length y))) xs (int (length x))))"

definition Menu_init ::
  "int \<times> int \<Rightarrow> string \<Rightarrow> string list \<Rightarrow> string option \<Rightarrow> int option \<Rightarrow> int option
     \<Rightarrow> py_error + menu" where
  "Menu_init tsize ttl opts dflt h c =
     (case max_len opts of Inl e \<Rightarrow> Inl e
      | Inr w \<Rightarrow>
          (let cols = compute_columns tsize w c in
           case compute_default opts dflt of Inl e \<Rightarrow> Inl e
           | Inr sel \<Rightarrow>
               (let hgt = compute_height tsize opts h in
                if hgt = 0 then Inl ZeroDivisionError
                else Inr \<lparr> cls = PlainMenu, title = ttl, options = opts, width = w,
                           columns = cols, selected = sel, height = hgt,
                           first = sel - sel mod hgt, result = ResNone,
                           searchMode = False, searchText = [], allOptions = opts,
                           fullHeight = hgt, indexes = [], selectedItems = {} \<rparr>)))"

subsection \<open>Window arithmetic\<close>

definition items_in_page :: "menu \<Rightarrow> int" where
  "items_in_page m = min (height m * columns m) (len_options m)"

definition top_right :: "menu \<Rightarrow> int" where
  "top_right m = first m + height m * (columns m - 1)"

definition bottom_right :: "menu \<Rightarrow> int" where
  "bottom_right m = first m + height m * columns m - 1"

definition top_left :: "menu \<Rightarrow> int" where
  "top_left m = first m"

definition bottom_left :: "menu \<Rightarrow> int" where
  "bottom_left m = first m + height m - 1"

text \<open>\<open>_adjust_selected\<close>: four \<open>if\<close> statements, one after the other.\<close>

definition adjust_selected :: "menu \<Rightarrow> menu" where
  "adjust_selected m =
     (let m1 = (if selected m < 0 then m\<lparr>selected := 0\<rparr> else m);
          m2 = (if selected m1 > len_options m1 - 1
                then m1\<lparr>selected := len_options m1 - 1\<rparr> else m1);
          m3 = (if first m2 < 0 then m2\<lparr>first := 0\<rparr> else m2)
      in if first m3 > len_options m3 - items_in_page m3
         then m3\<lparr>first := len_options m3 - items_in_page m3\<rparr> else m3)"

subsection \<open>Navigation handlers of \<open>Menu\<close>\<close>

definition on_down :: "menu \<Rightarrow> menu" where
  "on_down m =
     (let m1 = (if selected m = first m + items_in_page m - 1
                then m\<lparr>first := first m + 1\<rparr> else m)
      in adjust_selected (m1\<lparr>selected := selected m1 + 1\<rparr>))"

definition on_up :: "menu \<Rightarrow> menu" where
  "on_up m =
     (let m1 = (if selected m = first m then m\<lparr>first := first m - 1\<rparr> else m)
      in adjust_selected (m1\<lparr>selected := selected m1 - 1\<rparr>))"

definition on_right :: "menu \<Rightarrow> menu" where
  "on_right m =
     adjust_selected
       (if selected m \<ge> top_right m then
          (if selected m < bottom_right m then m\<lparr>selected := bottom_right m\<rparr>
           else if selected m = bottom_right m
                then m\<lparr>first := first m + height m, selected := selected m + height m\<rparr>
                else m)
        else m\<lparr>selected := selected m + height m\<rparr>)"

definition on_left :: "menu \<Rightarrow> menu" where
  "on_left m =
     adjust_selected
       (if selected m \<le> bottom_left m then
          (if selected m > top_left m then m\<lparr>selected := top_left m\<rparr>
           else if selected m = top_left m
                then m\<lparr>first := first m - height m, selected := selected m - height m\<rparr>
                else m)
        else m\<lparr>selected := selected m - height m\<rparr>)"

definition on_pageDown :: "menu \<Rightarrow> menu" where
  "on_pageDown m =
     adjust_selected
       (if selected m = first m + items_in_page m - 1
        then m\<lparr>selected := selected m + items_in_page m,
                first := first m + items_in_page m\<rparr>
        else m\<lparr>selected := first m + items_in_page m - 1\<rparr>)"

definition on_pageUp :: "menu \<Rightarrow> menu" where
  "on_pageUp m =
     adjust_selected
       (if selected m = first m
        then m\<lparr>selected := selected m - items_in_page m,
                first := first m - items_in_page m\<rparr>
        else m\<lparr>selected := first m\<rparr>)"

definition on_home :: "menu \<Rightarrow> menu" where
  "on_home m = adjust_selected (m\<lparr>selected := 0, first := 0\<rparr>)"

definition on_end :: "menu \<Rightarrow> menu" where
  "on_end m =
     (let m1 = m\<lparr>selected := len_options m - 1\<rparr>
      in adjust_selected (m1\<lparr>first := selected m1 - items_in_page m1 + 1\<rparr>))"

definition Menu_on_enter :: "menu \<Rightarrow> py_error + py_ret \<times> menu" where
  "Menu_on_enter m =
     (case py_getitem (options m) (selected m) of Inl e \<Rightarrow> Inl e
      | Inr x \<Rightarrow> Inr (RetTrue, m\<lparr>result := ResStr x\<rparr>))"

definition Menu_on_esc :: "menu \<Rightarrow> py_ret \<times> menu" where
  "Menu_on_esc m = (RetTrue, m\<lparr>result := ResNone\<rparr>)"

subsection \<open>\<open>SearchMixin\<close>\<close>

definition refilter :: "menu \<Rightarrow> menu" where
  "refilter m =
     (let m1 =
        (if searchMode m then
           (let filtered = filter (\<lambda>(i, x). str_in (lower (searchText m)) (lower x))
                             (zip (map int [0 ..< length (allOptions m)]) (allOptions m))
            in m\<lparr>options := map snd filtered, indexes := map fst filtered\<rparr>)
         else m\<lparr>options := allOptions m,
                 indexes := map int [0 ..< length (allOptions m)]\<rparr>)
      in m1\<lparr>selected := 0, first := 0\<rparr>)"

definition start_search :: "menu \<Rightarrow> menu" where
  "start_search m =
     (if \<not> searchMode m then m\<lparr>searchText := [], searchMode := True\<rparr> else m)"

definition stop_search :: "menu \<Rightarrow> menu" where
  "stop_search m =
     (if searchMode m then refilter (m\<lparr>searchMode := False\<rparr>) else m)"

definition on_backspace :: "menu \<Rightarrow> menu" where
  "on_backspace m =
     (if searchMode m \<and> searchText m \<noteq> []
      then refilter (m\<lparr>searchText := butlast (searchText m)\<rparr>) else m)"

definition SearchMixin_on_esc :: "menu \<Rightarrow> py_ret \<times> menu" where
  "SearchMixin_on_esc m =
     (if searchMode m then (RetFalse, stop_search m) else Menu_on_esc m)"

definition SearchMixin_init :: "menu \<Rightarrow> menu" where
  "SearchMixin_init m =
     refilter (m\<lparr>cls := SearchMenu, searchMode := False, searchText := [],
                 allOptions := options m, fullHeight := height m\<rparr>)"

subsection \<open>\<open>MultiSelectMixin\<close>\<close>

definition MultiSelectMixin_init :: "menu \<Rightarrow> menu" where
  "MultiSelectMixin_init m = m\<lparr>cls := MultiSelectMenu, selectedItems := {}\<rparr>"

definition MultiSelectMixin_on_enter :: "menu \<Rightarrow> py_error + py_ret \<times> menu" where
  "MultiSelectMixin_on_enter m =
     (if selectedItems m = {} then
        (case py_getitem (options m) (selected m) of Inl e \<Rightarrow> Inl e
         | Inr x \<Rightarrow>
             (let m1 = m\<lparr>selectedItems := insert x (selectedItems m)\<rparr>
              in Inr (RetTrue, m1\<lparr>result := ResList (sorted_list_of_set (selectedItems m1))\<rparr>)))
      else Inr (RetTrue, m\<lparr>result := ResList (sorted_list_of_set (selectedItems m))\<rparr>))"

definition MultiSelectMixin_on_esc :: "menu \<Rightarrow> py_ret \<times> menu" where
  "MultiSelectMixin_on_esc m = SearchMixin_on_esc (m\<lparr>result := ResList []\<rparr>)"

definition on_space :: "menu \<Rightarrow> py_error + py_ret \<times> menu" where
  "on_space m =
     (case py_getitem (options m) (selected m) of Inl e \<Rightarrow> Inl e
      | Inr x \<Rightarrow>
          (let m1 = (if x \<in> selectedItems m
                     then m\<lparr>selectedItems := selectedItems m - {x}\<rparr>
                     else m\<lparr>selectedItems := insert x (selectedItems m)\<rparr>)
           in Inr (RetNone, on_down m1)))"

subsection \<open>Key dispatch\<close>

text \<open>
  \<open>self._on_enter()\<close> and \<open>self._on_esc()\<close> resolve to the first class of the
  method resolution order that defines them.
\<close>

definition on_enter :: "menu \<Rightarrow> py_error + py_ret \<times> menu" where
  "on_enter m =
     (case cls m of MultiSelectMenu \<Rightarrow> MultiSelectMixin_on_enter m
      | SearchMenu \<Rightarrow> Menu_on_enter m
      | PlainMenu \<Rightarrow> Menu_on_enter m)"

definition on_esc :: "menu \<Rightarrow> py_ret \<times> menu" where
  "on_esc m =
     (case cls m of MultiSelectMenu \<Rightarrow> MultiSelectMixin_on_esc m
      | SearchMenu \<Rightarrow> SearchMixin_on_esc m
      | PlainMenu \<Rightarrow> Menu_on_esc m)"

text \<open>
  \<open>Menu._dispatch_key\<close> looks the method \<open>"_on_" + key\<close> up on the object and calls
  it when it exists; \<open>_on_backspace\<close> exists with \<open>SearchMixin\<close> only and
  \<open>_on_space\<close> with \<open>MultiSelectMixin\<close> only. Any other key returns \<open>None\<close>.
\<close>

definition Menu_dispatch_key :: "menu \<Rightarrow> string \<Rightarrow> py_error + py_ret \<times> menu" where
  "Menu_dispatch_key m key =
     (if key = ''down'' then Inr (RetNone, on_down m)
      else if key = ''up'' then Inr (RetNone, on_up m)
      else if key = ''right'' then Inr (RetNone, on_right m)
      else if key = ''left'' then Inr (RetNone, on_left m)
      else if key = ''pageDown'' then Inr (RetNone, on_pageDown m)
      else if key = ''pageUp'' then Inr (RetNone, on_pageUp m)
      else if key = ''home'' then Inr (RetNone, on_home m)
      else if key = ''end'' then Inr (RetNone, on_end m)
      else if key = ''enter'' then on_enter m
      else if key = ''esc'' then Inr (on_esc m)
      else if key = ''backspace'' \<and> cls m \<noteq> PlainMenu then Inr (RetNone, on_backspace m)
      else if key = ''space'' \<and> cls m = MultiSelectMenu then on_space m
      else Inr (RetNone, m))"

text \<open>\<open>len(key) == 1 and 32 < ord(key) < 127\<close>\<close>

definition printable_key :: "string \<Rightarrow> bool" where
  "printable_key key =
     (case key of [c] \<Rightarrow> (32::nat) < of_char c \<and> of_char c < (127::nat) | _ \<Rightarrow> False)"

definition SearchMixin_dispatch_key :: "menu \<Rightarrow> string \<Rightarrow> py_error + py_ret \<times> menu" where
  "SearchMixin_dispatch_key m key =
     (if printable_key key then
        (let m1 = start_search m
         in Inr (RetNone, refilter (m1\<lparr>searchText := searchText m1 @ key\<rparr>)))
      else Menu_dispatch_key m key)"

definition dispatch_key :: "menu \<Rightarrow> string \<Rightarrow> py_error + py_ret \<times> menu" where
  "dispatch_key m key =
     (case cls m of PlainMenu \<Rightarrow> Menu_dispatch_key m key
      | SearchMenu \<Rightarrow> SearchMixin_dispatch_key m key
      | MultiSelectMenu \<Rightarrow> SearchMixin_dispatch_key m key)"

text \<open>
  The object that \<open>show_menu(title, options, default, height, multiSelect)\<close> builds:
  \<open>columns\<close> is left at its default.
\<close>

definition show_menu_init ::
  "int \<times> int \<Rightarrow> string \<Rightarrow> string list \<Rightarrow> string option \<Rightarrow> int option \<Rightarrow> bool
     \<Rightarrow> py_error + menu" where
  "show_menu_init tsize ttl opts dflt h multiSelect =
     (case Menu_init tsize ttl opts dflt h None of Inl e \<Rightarrow> Inl e
      | Inr m \<Rightarrow>
          Inr (if multiSelect then MultiSelectMixin_init (SearchMixin_init m)
               else SearchMixin_init m))"

text \<open>
  A run of key events on the object, as the loop of \<open>show\<close> dispatches them: it stops
  at the first key whose handler returns a true value (the menu is finalized) and at
  the first exception.
\<close>

datatype run_outcome = Finalized menu | Browsing menu | Raised py_error

fun run_keys :: "menu \<Rightarrow> string list \<Rightarrow> run_outcome" where
  "run_keys m [] = Browsing m"
| "run_keys m (k # ks) =
     (case dispatch_key m k of Inl e \<Rightarrow> Raised e
      | Inr (r, m') \<Rightarrow> if truthy r then Finalized m' else run_keys m' ks)"

section \<open>Rendering and the session loop\<close>

text \<open>
  Modelled from the spec: the module \<open>ansi\<close> is not among the sources; the spec gives its
  operations as the abstract terminal driver (colorize, move-cursor up/down by N,
  clear-line, clear-to-end-of-line, save/restore cursor position, show/hide cursor).
  A piece of output is kept as a list of spans: plain text, or the text handed to
  \<open>ansi.colorize(text, fg, bg, bright)\<close> together with its colours. What the menu does
  to the terminal is the list of the driver calls it makes, in order; \<open>Write\<close> is
  \<open>self._print\<close>.
\<close>

datatype span = Plain string | Colorize string string "string option" bool

type_synonym rich = "span list"

datatype term_op =
  Write rich | ClearEol | ClearLine | Up int | Down int
  | SavePosition | RestorePosition | HideCursor | ShowCursor

text \<open>
  \<open>range(a, b, step)\<close>. \<open>_print_menu\<close> calls it with the step \<open>self.height\<close> inside
  the loop over \<open>xrange(self.height)\<close>, so with a step of at least 1; for a negative
  step and \<open>a \<le> b\<close> the list is empty as well.
\<close>

definition py_range :: "int \<Rightarrow> int \<Rightarrow> int \<Rightarrow> int list" where
  "py_range a b step =
     (if 0 < step then map (\<lambda>j. a + int j * step) [0 ..< nat ((b - a + step - 1) div step)]
      else [])"

text \<open>\<open>" ".join(items)\<close>\<close>

fun join_spans :: "rich list \<Rightarrow> rich" where
  "join_spans [] = []"
| "join_spans [x] = x"
| "join_spans (x # y # ys) = x @ [Plain '' ''] @ join_spans (y # ys)"

subsection \<open>One menu item\<close>

definition build_left_marker :: "menu \<Rightarrow> int \<Rightarrow> rich" where
  "build_left_marker m index =
     (if index > 0 \<and> index = top_left m then [Colorize ''^'' ''white'' None True]
      else if top_left m \<le> index \<and> index \<le> bottom_left m then [Plain '' '']
      else [])"

definition build_right_marker :: "menu \<Rightarrow> int \<Rightarrow> rich" where
  "build_right_marker m index =
     (if index < len_options m - 1 \<and> index = bottom_right m then [Colorize ''v'' ''white'' None True]
      else if top_right m \<le> index \<and> index \<le> bottom_right m then [Plain '' '']
      else [])"

text \<open>
  \<open>index < len(self.options) and self.options[index] in self.selectedItems\<close>: the
  subscript is evaluated only when the comparison holds.
\<close>

definition is_multi_selected :: "menu \<Rightarrow> int \<Rightarrow> py_error + bool" where
  "is_multi_selected m index =
     (if index < len_options m then
        (case py_getitem (options m) index of Inl e \<Rightarrow> Inl e
         | Inr x \<Rightarrow> Inr (x \<in> selectedItems m))
      else Inr False)"

definition Menu_colorize_item :: "menu \<Rightarrow> int \<Rightarrow> string \<Rightarrow> rich" where
  "Menu_colorize_item m index item =
     (if index = selected m then [Colorize item ''black'' (Some ''white'') False] else [Plain item])"

definition MultiSelectMixin_colorize_item :: "menu \<Rightarrow> int \<Rightarrow> string \<Rightarrow> py_error + rich" where
  "MultiSelectMixin_colorize_item m index item =
     (case is_multi_selected m index of Inl e \<Rightarrow> Inl e
      | Inr multiSelected \<Rightarrow>
          Inr (if index = selected m then
                 (if multiSelected then [Colorize item ''red'' (Some ''white'') False]
                  else [Colorize item ''black'' (Some ''white'') False])
               else if multiSelected then [Colorize item ''red'' None False]
               else [Plain item]))"

definition colorize_item :: "menu \<Rightarrow> int \<Rightarrow> string \<Rightarrow> py_error + rich" where
  "colorize_item m index item =
     (case cls m of MultiSelectMenu \<Rightarrow> MultiSelectMixin_colorize_item m index item
      | SearchMenu \<Rightarrow> Inr (Menu_colorize_item m index item)
      | PlainMenu \<Rightarrow> Inr (Menu_colorize_item m index item))"

text \<open>The option padded to the width of the longest one, coloured, between its markers.\<close>

definition build_menu_item :: "menu \<Rightarrow> int \<Rightarrow> string \<Rightarrow> py_error + rich" where
  "build_menu_item m index opt =
     (let item = opt @ replicate (nat (width m - int (length opt))) CHR '' ''
      in case colorize_item m index item of Inl e \<Rightarrow> Inl e
         | Inr colored \<Rightarrow> Inr (build_left_marker m index @ colored @ build_right_marker m index))"

subsection \<open>\<open>_print_menu\<close>\<close>

text \<open>
  The items of one line: the inner loop of \<open>Menu._print_menu\<close> over
  \<open>lineItemIndexes\<close>. The calls come with the exception that stopped them, if any.
\<close>

fun build_items :: "menu \<Rightarrow> string list \<Rightarrow> int list \<Rightarrow> py_error + rich list" where
  "build_items m page [] = Inr []"
| "build_items m page (index # rest) =
     (if index < int (length page) then
        (case py_getitem page index of Inl e \<Rightarrow> Inl e
         | Inr opt \<Rightarrow>
             (case build_menu_item m (first m + index) opt of Inl e \<Rightarrow> Inl e
              | Inr item \<Rightarrow>
                  (case build_items m page rest of Inl e \<Rightarrow> Inl e
                   | Inr items \<Rightarrow> Inr (item # items))))
      else build_items m page rest)"

text \<open>The outer loop over the rows: each line is written, cleared to its end and broken.\<close>

fun print_rows :: "menu \<Rightarrow> string list \<Rightarrow> int list \<Rightarrow> term_op list \<times> py_error option" where
  "print_rows m page [] = ([], None)"
| "print_rows m page (r # rows) =
     (case build_items m page (py_range r (r + int (length page)) (height m)) of
        Inl e \<Rightarrow> ([], Some e)
      | Inr items \<Rightarrow>
          (let (ops, err) = print_rows m page rows
           in ([Write (join_spans items), ClearEol, Write [Plain [CHR 0x0A]]] @ ops, err)))"

definition Menu_print_menu :: "menu \<Rightarrow> term_op list \<times> py_error option" where
  "Menu_print_menu m =
     print_rows m (py_slice (options m) (first m) (first m + height m * columns m))
       (map int [0 ..< nat (height m)])"

text \<open>
  \<open>SearchMixin._print_menu\<close>: with no option left it clears the lines of the menu
  instead; below the menu it clears the search line and writes the query while searching.
\<close>

definition SearchMixin_print_menu :: "menu \<Rightarrow> term_op list \<times> py_error option" where
  "SearchMixin_print_menu m =
     (let (ops, err) =
            (if options m \<noteq> [] then Menu_print_menu m
             else (concat (replicate (nat (height m)) [ClearLine, Down 1]), None))
      in case err of Some e \<Rightarrow> (ops, Some e)
         | None \<Rightarrow>
             (ops @ [ClearLine] @
                (if searchMode m then [Write [Plain (CHR ''/'' # searchText m)]] else []), None))"

definition print_menu :: "menu \<Rightarrow> term_op list \<times> py_error option" where
  "print_menu m =
     (case cls m of PlainMenu \<Rightarrow> Menu_print_menu m
      | SearchMenu \<Rightarrow> SearchMixin_print_menu m
      | MultiSelectMenu \<Rightarrow> SearchMixin_print_menu m)"

subsection \<open>\<open>_clear_menu\<close> and \<open>show\<close>\<close>

definition clear_menu :: "menu \<Rightarrow> term_op list" where
  "clear_menu m =
     (let lines = (if title m \<noteq> [] then height m + 1 else height m)
      in [RestorePosition, Up lines] @ concat (replicate (nat lines) [ClearLine, Down 1])
         @ [ClearLine, Up lines])"

text \<open>
  How the key-event source stops after its last key: the generator ends, or it lets an
  exception escape.
\<close>

datatype source_end = StreamEnds | SourceRaises

text \<open>
  The driver calls inside the key handlers: \<open>_start_search\<close> shows the cursor,
  \<open>_stop_search\<close> hides it. They are made by a printable key, and by esc while
  searching, in the classes with \<open>SearchMixin\<close>.
\<close>

definition start_search_ops :: "menu \<Rightarrow> term_op list" where
  "start_search_ops m = (if \<not> searchMode m then [ShowCursor] else [])"

definition stop_search_ops :: "menu \<Rightarrow> term_op list" where
  "stop_search_ops m = (if searchMode m then [HideCursor] else [])"

definition dispatch_key_ops :: "menu \<Rightarrow> string \<Rightarrow> term_op list" where
  "dispatch_key_ops m key =
     (case cls m of PlainMenu \<Rightarrow> []
      | SearchMenu \<Rightarrow>
          if printable_key key then start_search_ops m
          else if key = ''esc'' \<and> searchMode m then stop_search_ops m else []
      | MultiSelectMenu \<Rightarrow>
          if printable_key key then start_search_ops m
          else if key = ''esc'' \<and> searchMode m then stop_search_ops m else [])"

text \<open>
  The body of the \<open>try\<close> block of \<open>show\<close>: the driver calls made, what leaves the
  block (the returned result or the exception) and the object as it is then.
\<close>

fun show_loop ::
  "menu \<Rightarrow> string list \<Rightarrow> source_end \<Rightarrow> term_op list \<times> (py_error + py_result) \<times> menu" where
  "show_loop m [] e =
     ([], (case e of StreamEnds \<Rightarrow> Inr ResNone | SourceRaises \<Rightarrow> Inl KeyboardFailure), m)"
| "show_loop m (k # ks) e =
     (case dispatch_key m k of Inl err \<Rightarrow> (dispatch_key_ops m k, Inl err, m)
      | Inr (r, m') \<Rightarrow>
          if truthy r then (dispatch_key_ops m k, Inr (result m'), m')
          else (let (ops, perr) = print_menu m' in
                case perr of
                  Some err \<Rightarrow>
                    (dispatch_key_ops m k @ [RestorePosition, Up (height m')] @ ops, Inl err, m')
                | None \<Rightarrow>
                    (let (t, out, mf) = show_loop m' ks e
                     in (dispatch_key_ops m k @ [RestorePosition, Up (height m')] @ ops @ t,
                         out, mf))))"

text \<open>
  \<open>Menu.show\<close>. The title and the first \<open>_print_menu\<close> come before the \<open>try\<close>, so an
  exception there leaves without the \<open>finally\<close> block; everything that leaves the
  loop runs \<open>_clear_menu\<close> and \<open>ansi.show_cursor()\<close> first.
\<close>

definition Menu_show :: "menu \<Rightarrow> string list \<Rightarrow> source_end \<Rightarrow> term_op list \<times> (py_error + py_result)" where
  "Menu_show m keys e =
     (let pre = (if title m \<noteq> []
                 then [Write [Colorize (title m) ''white'' None True, Plain [CHR 0x0A]]] else []);
          (ops, perr) = print_menu m
      in case perr of Some err \<Rightarrow> (pre @ ops, Inl err)
         | None \<Rightarrow>
             (let (t, out, mf) = show_loop m keys e
              in (pre @ ops @ [SavePosition, HideCursor] @ t @ clear_menu mf @ [ShowCursor], out)))"

subsection \<open>The terminal\<close>

text \<open>
  Modelled from the spec: the text that a piece of output shows. \<open>ansi.colorize\<close>
  changes the colours of its text, not the text.
\<close>

fun span_text :: "span \<Rightarrow> string" where
  "span_text (Plain s) = s"
| "span_text (Colorize s fg bg bright) = s"

definition rich_text :: "rich \<Rightarrow> string" where
  "rich_text r = concat (map span_text r)"

text \<open>
  Modelled from the spec: the terminal that the driver of \<open>ansi\<close> acts on, row by row.
  It is the row of the cursor, the row kept by save-position, the set of rows that hold
  text, and whether the cursor is visible.
\<close>

record screen =
  cur_row :: int
  saved_row :: int
  dirty :: "int set"
  cursor_shown :: bool

text \<open>
  Modelled from the spec: a written character puts text on the row of the cursor; a line
  break moves the cursor one row down (the screen does not scroll).
\<close>

definition write_char :: "char \<Rightarrow> screen \<Rightarrow> screen" where
  "write_char c s =
     (if c = CHR 0x0A then s\<lparr>cur_row := cur_row s + 1\<rparr>
      else s\<lparr>dirty := insert (cur_row s) (dirty s)\<rparr>)"

text \<open>
  Modelled from the spec: the driver operations. Clear-line empties the row of the
  cursor, clear-to-end-of-line may leave text on it, move-cursor up and down change the
  row by \<open>n\<close>, restore-position goes back to the row of the last save-position.
\<close>

fun apply_op :: "term_op \<Rightarrow> screen \<Rightarrow> screen" where
  "apply_op (Write r) s = fold write_char (rich_text r) s"
| "apply_op ClearEol s = s"
| "apply_op ClearLine s = s\<lparr>dirty := dirty s - {cur_row s}\<rparr>"
| "apply_op (Up n) s = s\<lparr>cur_row := cur_row s - n\<rparr>"
| "apply_op (Down n) s = s\<lparr>cur_row := cur_row s + n\<rparr>"
| "apply_op SavePosition s = s\<lparr>saved_row := cur_row s\<rparr>"
| "apply_op RestorePosition s = s\<lparr>cur_row := saved_row s\<rparr>"
| "apply_op HideCursor s = s\<lparr>cursor_shown := False\<rparr>"
| "apply_op ShowCursor s = s\<lparr>cursor_shown := True\<rparr>"

text \<open>The terminal after a list of driver calls.\<close>

definition run_ops :: "term_op list \<Rightarrow> screen \<Rightarrow> screen" where
  "run_ops ops s = fold apply_op ops s"


section \<open>Vocabulary of the properties\<close>

text \<open>The eight keys whose handlers move the cursor and end in \<open>_adjust_selected\<close>.\<close>

definition nav_keys :: "string set" where
  "nav_keys = {''down'', ''up'', ''right'', ''left'', ''pageDown'', ''pageUp'', ''home'', ''end''}"

text \<open>Two objects of the same class over the same options and geometry.\<close>

definition same_config :: "menu \<Rightarrow> menu \<Rightarrow> bool" where
  "same_config m m' =
     (options m' = options m \<and> height m' = height m \<and> columns m' = columns m \<and> cls m' = cls m)"

text \<open>
  \<open>Menu("Pick", ["a","b","c","d","e"], None, 3, 1)\<close> on a terminal of 80 by 24 cells,
  as \<open>Menu_init\<close> builds it.
\<close>

definition menu_abcde :: menu where
  "menu_abcde =
     \<lparr> cls = PlainMenu, title = ''Pick'', options = [''a'', ''b'', ''c'', ''d'', ''e''],
       width = 1, columns = 1, selected = 0, height = 3, first = 0, result = ResNone,
       searchMode = False, searchText = [], allOptions = [''a'', ''b'', ''c'', ''d'', ''e''],
       fullHeight = 3, indexes = [], selectedItems = {} \<rparr>"

text \<open>The run ended with a handler returning true and \<open>self.result\<close> equal to \<open>r\<close>.\<close>

definition finalized_with :: "run_outcome \<Rightarrow> py_result \<Rightarrow> bool" where
  "finalized_with out r = (case out of Finalized m \<Rightarrow> result m = r | Browsing m \<Rightarrow> False | Raised e \<Rightarrow> False)"

text \<open>
  The object of \<open>show_menu("Pick", ["x","y","z"], multiSelect=True)\<close> and the one of
  \<open>show_menu("Pick", ["apple","buzz","fizz","grape"])\<close>, on a terminal of 80 by 24 cells.
\<close>

definition menu_xyz :: menu where
  "menu_xyz =
     \<lparr> cls = MultiSelectMenu, title = ''Pick'', options = [''x'', ''y'', ''z''],
       width = 1, columns = 5, selected = 0, height = 3, first = 0, result = ResNone,
       searchMode = False, searchText = [], allOptions = [''x'', ''y'', ''z''],
       fullHeight = 3, indexes = [0, 1, 2], selectedItems = {} \<rparr>"

definition menu_fruit :: menu where
  "menu_fruit =
     \<lparr> cls = SearchMenu, title = ''Pick'', options = [''apple'', ''buzz'', ''fizz'', ''grape''],
       width = 5, columns = 5, selected = 0, height = 4, first = 0, result = ResNone,
       searchMode = False, searchText = [],
       allOptions = [''apple'', ''buzz'', ''fizz'', ''grape''],
       fullHeight = 4, indexes = [0, 1, 2, 3], selectedItems = {} \<rparr>"


text \<open>Typing the characters of \<open>cs\<close>: one key event for each.\<close>

definition type_keys :: "string \<Rightarrow> string list" where
  "type_keys cs = map (\<lambda>c. [c]) cs"


text \<open>The two objects above after the key q: no option contains it.\<close>

definition menu_fruit_q :: menu where
  "menu_fruit_q = menu_fruit\<lparr>options := [], indexes := [], searchMode := True, searchText := ''q''\<rparr>"

definition menu_xyz_q :: menu where
  "menu_xyz_q = menu_xyz\<lparr>options := [], indexes := [], searchMode := True, searchText := ''q''\<rparr>"


text \<open>
  Index \<open>i\<close> is on the visible page: it lies in the slice
  \<open>options[first : first + height*columns]\<close> that \<open>_print_menu\<close> renders.
\<close>

definition in_page :: "menu \<Rightarrow> int \<Rightarrow> bool" where
  "in_page m i = (0 \<le> i \<and> first m \<le> i \<and> i < first m + height m * columns m \<and> i < len_options m)"


text \<open>No line break in a text.\<close>

definition no_newline :: "string \<Rightarrow> bool" where
  "no_newline t = (CHR 0x0A \<notin> set t)"

text \<open>
  A menu that is drawn on \<open>height\<close> lines: at least one line, and no line break in
  the title, the options or the query; the window does not start before the list.
\<close>

definition text_ok :: "menu \<Rightarrow> bool" where
  "text_ok m =
     (1 \<le> height m \<and> no_newline (title m) \<and> no_newline (searchText m) \<and>
      list_all no_newline (options m) \<and> list_all no_newline (allOptions m))"

definition renderable :: "menu \<Rightarrow> bool" where
  "renderable m = (text_ok m \<and> 0 \<le> first m)"

text \<open>Outside the rows \<open>lo\<close> to \<open>hi\<close> the same rows hold text in both terminals.\<close>

definition touched :: "int \<Rightarrow> int \<Rightarrow> screen \<Rightarrow> screen \<Rightarrow> bool" where
  "touched lo hi s s' = (\<forall>r. r < lo \<or> hi < r \<longrightarrow> (r \<in> dirty s' \<longleftrightarrow> r \<in> dirty s))"

text \<open>The lines that \<open>_clear_menu\<close> counts: the menu lines, and one for a title.\<close>

definition menu_lines :: "menu \<Rightarrow> int" where
  "menu_lines m = (if title m \<noteq> [] then height m + 1 else height m)"

text \<open>What a key handler keeps of a menu that can be drawn.\<close>

definition kept :: "menu \<Rightarrow> menu \<Rightarrow> bool" where
  "kept m m' = (renderable m' \<and> height m' = height m \<and> title m' = title m)"

text \<open>
  What \<open>show\<close> returns or raises for a run of keys: the result of the finalized menu,
  the exception of a handler, and after the last key \<open>None\<close> or the exception of the
  key-event source.
\<close>

definition show_return :: "run_outcome \<Rightarrow> source_end \<Rightarrow> py_error + py_result" where
  "show_return out e =
     (case out of Finalized m \<Rightarrow> Inr (result m)
      | Raised err \<Rightarrow> Inl err
      | Browsing m \<Rightarrow> (case e of StreamEnds \<Rightarrow> Inr ResNone | SourceRaises \<Rightarrow> Inl KeyboardFailure))"

text \<open>A terminal with text on rows 3 and 11 and its cursor on row 10.\<close>

definition screen_10 :: screen where
  "screen_10 = \<lparr> cur_row = 10, saved_row = 0, dirty = {3, 11}, cursor_shown = True \<rparr>"


section \<open>The clamp at the end of every navigation handler\<close>

lemma adjust_selected_config: "same_config m (adjust_selected m)"
  by (simp add: adjust_selected_def same_config_def Let_def len_options_def items_in_page_def)

lemma adjust_selected_bounds:
  assumes "options m \<noteq> []"
  shows "0 \<le> selected (adjust_selected m) \<and>
         selected (adjust_selected m) < len_options (adjust_selected m) \<and>
         0 \<le> first (adjust_selected m) \<and>
         first (adjust_selected m)
           \<le> max 0 (len_options (adjust_selected m) - items_in_page (adjust_selected m))"
proof -
  have "1 \<le> len_options m"
    using assms by (cases "options m") (simp_all add: len_options_def)
  then show ?thesis
    by (auto simp: adjust_selected_def Let_def len_options_def items_in_page_def)
qed

lemma handlers_adjust:
  "\<exists>m0. on_down m = adjust_selected m0 \<and> same_config m m0"
  "\<exists>m0. on_up m = adjust_selected m0 \<and> same_config m m0"
  "\<exists>m0. on_right m = adjust_selected m0 \<and> same_config m m0"
  "\<exists>m0. on_left m = adjust_selected m0 \<and> same_config m m0"
  "\<exists>m0. on_pageDown m = adjust_selected m0 \<and> same_config m m0"
  "\<exists>m0. on_pageUp m = adjust_selected m0 \<and> same_config m m0"
  "\<exists>m0. on_home m = adjust_selected m0 \<and> same_config m m0"
  "\<exists>m0. on_end m = adjust_selected m0 \<and> same_config m m0"
  unfolding on_down_def on_up_def on_right_def on_left_def on_pageDown_def on_pageUp_def
    on_home_def on_end_def Let_def
  by (rule exI, rule conjI, rule refl, simp add: same_config_def)+

lemma Menu_dispatch_nav:
  "Menu_dispatch_key m ''down'' = Inr (RetNone, on_down m)"
  "Menu_dispatch_key m ''up'' = Inr (RetNone, on_up m)"
  "Menu_dispatch_key m ''right'' = Inr (RetNone, on_right m)"
  "Menu_dispatch_key m ''left'' = Inr (RetNone, on_left m)"
  "Menu_dispatch_key m ''pageDown'' = Inr (RetNone, on_pageDown m)"
  "Menu_dispatch_key m ''pageUp'' = Inr (RetNone, on_pageUp m)"
  "Menu_dispatch_key m ''home'' = Inr (RetNone, on_home m)"
  "Menu_dispatch_key m ''end'' = Inr (RetNone, on_end m)"
  by (simp_all add: Menu_dispatch_key_def)

text \<open>A key of more than one character is never taken for search text.\<close>

lemma dispatch_long_key:
  assumes "length k \<noteq> 1"
  shows "dispatch_key m k = Menu_dispatch_key m k"
proof -
  have "\<not> printable_key k"
    using assms by (auto simp: printable_key_def split: list.splits)
  then show ?thesis
    by (cases "cls m") (simp_all add: dispatch_key_def SearchMixin_dispatch_key_def)
qed

lemma nav_dispatch:
  assumes "k \<in> nav_keys"
  shows "\<exists>m0. dispatch_key m k = Inr (RetNone, adjust_selected m0) \<and> same_config m m0"
proof -
  have ks: "k = ''down'' \<or> k = ''up'' \<or> k = ''right'' \<or> k = ''left''
    \<or> k = ''pageDown'' \<or> k = ''pageUp'' \<or> k = ''home'' \<or> k = ''end''"
    using assms by (simp add: nav_keys_def)
  have len: "length k \<noteq> 1" using ks by (elim disjE) simp_all
  have "\<exists>m0. Menu_dispatch_key m k = Inr (RetNone, adjust_selected m0) \<and> same_config m m0"
    using ks
  proof (elim disjE)
    assume "k = ''down''"
    then show ?thesis using handlers_adjust(1)[of m] by (simp only: Menu_dispatch_nav) auto
  next
    assume "k = ''up''"
    then show ?thesis using handlers_adjust(2)[of m] by (simp only: Menu_dispatch_nav) auto
  next
    assume "k = ''right''"
    then show ?thesis using handlers_adjust(3)[of m] by (simp only: Menu_dispatch_nav) auto
  next
    assume "k = ''left''"
    then show ?thesis using handlers_adjust(4)[of m] by (simp only: Menu_dispatch_nav) auto
  next
    assume "k = ''pageDown''"
    then show ?thesis using handlers_adjust(5)[of m] by (simp only: Menu_dispatch_nav) auto
  next
    assume "k = ''pageUp''"
    then show ?thesis using handlers_adjust(6)[of m] by (simp only: Menu_dispatch_nav) auto
  next
    assume "k = ''home''"
    then show ?thesis using handlers_adjust(7)[of m] by (simp only: Menu_dispatch_nav) auto
  next
    assume "k = ''end''"
    then show ?thesis using handlers_adjust(8)[of m] by (simp only: Menu_dispatch_nav) auto
  qed
  then show ?thesis by (simp only: dispatch_long_key[OF len])
qed

text \<open>
  C3. Take any menu object over a non-empty option list (whatever its cursor and window
  are, so in particular any reachable one, and whatever its height and columns are, so in
  particular every valid geometry with height and columns at least 1) and dispatch any
  non-empty sequence of navigation keys. No handler finalizes or raises, the options and
  the geometry stay as they were, and after the clamp that ends the last handler
  \<open>0 \<le> selected < N\<close> and \<open>0 \<le> first \<le> max(0, N - itemsInPage)\<close> hold, with
  \<open>N = len(options)\<close> and \<open>itemsInPage = min(height*columns, N)\<close>.
\<close>

theorem clamp_invariant:
  assumes "options m \<noteq> []" and "ks \<noteq> []" and "set ks \<subseteq> nav_keys"
  shows "\<exists>m'. run_keys m ks = Browsing m' \<and> same_config m m' \<and>
           0 \<le> selected m' \<and> selected m' < len_options m' \<and>
           0 \<le> first m' \<and> first m' \<le> max 0 (len_options m' - items_in_page m')"
  using assms
proof (induction ks arbitrary: m)
  case Nil
  then show ?case by simp
next
  case (Cons k ks)
  from Cons.prems(3) have "k \<in> nav_keys" by simp
  from nav_dispatch[OF this, of m] obtain m0 where
    d: "dispatch_key m k = Inr (RetNone, adjust_selected m0)" and c0: "same_config m m0"
    by blast
  let ?m1 = "adjust_selected m0"
  have c1: "same_config m ?m1"
    using c0 adjust_selected_config[of m0] by (simp add: same_config_def)
  have ne: "options m0 \<noteq> []" using c0 Cons.prems(1) by (simp add: same_config_def)
  note ok1 = adjust_selected_bounds[OF ne]
  show ?case
  proof (cases ks)
    case Nil
    then show ?thesis using d ok1 c1 by (simp add: truthy_def)
  next
    case (Cons k' ks')
    have ne1: "options ?m1 \<noteq> []" using c1 \<open>options m \<noteq> []\<close> by (simp add: same_config_def)
    have "ks \<noteq> []" "set ks \<subseteq> nav_keys" using Cons Cons.prems(3) by simp_all
    from Cons.IH[OF ne1 this] obtain m' where
      r: "run_keys ?m1 ks = Browsing m'" and c: "same_config ?m1 m'" and
      b: "0 \<le> selected m' \<and> selected m' < len_options m' \<and>
          0 \<le> first m' \<and> first m' \<le> max 0 (len_options m' - items_in_page m')"
      by blast
    have "same_config m m'" using c1 c by (simp add: same_config_def)
    moreover have "run_keys m (k # ks) = Browsing m'" using d r by (simp add: truthy_def)
    ultimately show ?thesis using b by blast
  qed
qed

theorem clamp_invariant_witness:
  "options menu_abcde \<noteq> [] \<and> [''down'', ''end'', ''right'', ''pageUp''] \<noteq> [] \<and>
   set [''down'', ''end'', ''right'', ''pageUp''] \<subseteq> nav_keys \<and>
   (\<exists>m'. run_keys menu_abcde [''down'', ''end'', ''right'', ''pageUp''] = Browsing m' \<and>
      same_config menu_abcde m' \<and>
      0 \<le> selected m' \<and> selected m' < len_options m' \<and>
      0 \<le> first m' \<and> first m' \<le> max 0 (len_options m' - items_in_page m'))"
  using clamp_invariant[of menu_abcde "[''down'', ''end'', ''right'', ''pageUp'']"]
  by (simp add: menu_abcde_def nav_keys_def)

section \<open>The scenario of five options\<close>

lemma Menu_init_abcde:
  assumes "2 \<le> tw" "5 \<le> th"
  shows "Menu_init (tw, th) ttl [''a'', ''b'', ''c'', ''d'', ''e''] None (Some 3) (Some 1)
         = Inr (menu_abcde\<lparr>title := ttl\<rparr>)"
proof -
  have "1 \<le> tw div 2" using assms(1) by presburger
  then show ?thesis using assms(2)
    by (simp add: Menu_init_def max_len_def compute_columns_def compute_default_def
        compute_height_def menu_abcde_def Let_def min_def)
qed

lemma show_menu_init_xyz:
  "show_menu_init (80, 24) ''Pick'' [''x'', ''y'', ''z''] None None True = Inr menu_xyz"
  by (simp add: show_menu_init_def Menu_init_def max_len_def compute_columns_def compute_default_def
        compute_height_def menu_xyz_def Let_def MAX_COLUMNS_def SearchMixin_init_def
        MultiSelectMixin_init_def refilter_def)

lemma show_menu_init_fruit:
  "show_menu_init (80, 24) ''Pick'' [''apple'', ''buzz'', ''fizz'', ''grape''] None None False = Inr menu_fruit"
  by (simp add: show_menu_init_def Menu_init_def max_len_def compute_columns_def compute_default_def
        compute_height_def menu_fruit_def Let_def MAX_COLUMNS_def SearchMixin_init_def
        MultiSelectMixin_init_def refilter_def)

lemma on_down_abcde:
  "on_down (menu_abcde\<lparr>title := ttl\<rparr>) = menu_abcde\<lparr>title := ttl, selected := 1\<rparr>"
  "on_down (menu_abcde\<lparr>title := ttl, selected := 1\<rparr>) = menu_abcde\<lparr>title := ttl, selected := 2\<rparr>"
  "on_down (menu_abcde\<lparr>title := ttl, selected := 2\<rparr>) = menu_abcde\<lparr>title := ttl, selected := 3, first := 1\<rparr>"
  by (simp_all add: on_down_def adjust_selected_def items_in_page_def len_options_def menu_abcde_def Let_def)

lemma three_downs_abcde:
  "run_keys (menu_abcde\<lparr>title := ttl\<rparr>) [''down'', ''down'', ''down'']
     = Browsing (menu_abcde\<lparr>title := ttl, selected := 3, first := 1\<rparr>)"
  by (simp add: dispatch_long_key Menu_dispatch_nav on_down_abcde truthy_def)

lemma Menu_dispatch_enter_esc:
  "Menu_dispatch_key m ''enter'' = on_enter m"
  "Menu_dispatch_key m ''esc'' = Inr (on_esc m)"
  by (simp_all add: Menu_dispatch_key_def)

lemma dispatch_enter: "dispatch_key m ''enter'' = on_enter m"
  by (simp add: dispatch_long_key Menu_dispatch_enter_esc)

lemma dispatch_esc: "dispatch_key m ''esc'' = Inr (on_esc m)"
  by (simp add: dispatch_long_key Menu_dispatch_enter_esc)

lemma enter_abcde:
  "on_enter (menu_abcde\<lparr>title := ttl, selected := 3, first := 1\<rparr>)
     = Inr (RetTrue, menu_abcde\<lparr>title := ttl, selected := 3, first := 1, result := ResStr ''d''\<rparr>)"
  by (simp add: on_enter_def Menu_on_enter_def py_getitem_def menu_abcde_def)

section \<open>Alignment of the window\<close>

text \<open>
  The window is not kept on a page boundary: in the menu over a..e with height 3 and one
  column, three times \<open>down\<close> leave \<open>first = 1\<close>, which is no multiple of
  \<open>height * columns = 3\<close>.
\<close>

theorem first_not_page_aligned:
  "Menu_init (80, 24) ''Pick'' [''a'', ''b'', ''c'', ''d'', ''e''] None (Some 3) (Some 1) = Inr menu_abcde \<and>
   run_keys menu_abcde [''down'', ''down'', ''down'']
     = Browsing (menu_abcde\<lparr>selected := 3, first := 1\<rparr>) \<and>
   \<not> (height (menu_abcde\<lparr>selected := 3, first := 1\<rparr>) * columns (menu_abcde\<lparr>selected := 3, first := 1\<rparr>))
        dvd first (menu_abcde\<lparr>selected := 3, first := 1\<rparr>)"
proof -
  have t: "menu_abcde\<lparr>title := ''Pick''\<rparr> = menu_abcde" by (simp add: menu_abcde_def)
  have "Menu_init (80, 24) ''Pick'' [''a'', ''b'', ''c'', ''d'', ''e''] None (Some 3) (Some 1) = Inr menu_abcde"
    using Menu_init_abcde[of 80 24 "''Pick''"] by (simp add: t)
  moreover have "run_keys menu_abcde [''down'', ''down'', ''down'']
     = Browsing (menu_abcde\<lparr>selected := 3, first := 1\<rparr>)"
    using three_downs_abcde[of "''Pick''"] by (simp add: t)
  moreover have "\<not> (height (menu_abcde\<lparr>selected := 3, first := 1\<rparr>) * columns (menu_abcde\<lparr>selected := 3, first := 1\<rparr>))
        dvd first (menu_abcde\<lparr>selected := 3, first := 1\<rparr>)"
    by (simp add: menu_abcde_def)
  ultimately show ?thesis by blast
qed

text \<open>
  C1, as amended. In the object that the constructor of \<open>Menu\<close> builds,
  \<open>first = selected - selected mod height\<close>, so \<open>first\<close> is a multiple of \<open>height\<close>
  (the number of rows, not \<open>height * columns\<close>). Later key events do not keep the
  window on a page boundary: the window follows the cursor.
\<close>

theorem initial_first_row_aligned:
  assumes "Menu_init tsize ttl opts dflt h c = Inr m"
  shows "first m = selected m - selected m mod height m \<and> height m dvd first m"
proof -
  have "first m = selected m - selected m mod height m"
    using assms
    by (auto simp: Menu_init_def Let_def split: sum.splits if_splits)
  moreover have "height m dvd selected m - selected m mod height m"
    by (simp add: minus_mod_eq_mult_div)
  ultimately show ?thesis by simp
qed

theorem initial_first_row_aligned_witness:
  "Menu_init (80, 24) ''Pick'' [''a'', ''b'', ''c'', ''d'', ''e''] (Some ''e'') (Some 3) (Some 2)
     = Inr (menu_abcde\<lparr>columns := 2, selected := 4, first := 3\<rparr>) \<and>
   first (menu_abcde\<lparr>columns := 2, selected := 4, first := 3\<rparr>)
     = selected (menu_abcde\<lparr>columns := 2, selected := 4, first := 3\<rparr>)
       - selected (menu_abcde\<lparr>columns := 2, selected := 4, first := 3\<rparr>)
           mod height (menu_abcde\<lparr>columns := 2, selected := 4, first := 3\<rparr>) \<and>
   height (menu_abcde\<lparr>columns := 2, selected := 4, first := 3\<rparr>)
     dvd first (menu_abcde\<lparr>columns := 2, selected := 4, first := 3\<rparr>)"
proof -
  have i: "Menu_init (80, 24) ''Pick'' [''a'', ''b'', ''c'', ''d'', ''e''] (Some ''e'') (Some 3) (Some 2)
     = Inr (menu_abcde\<lparr>columns := 2, selected := 4, first := 3\<rparr>)"
    by (simp add: Menu_init_def max_len_def compute_columns_def compute_default_def
        compute_height_def menu_abcde_def Let_def)
  show ?thesis using initial_first_row_aligned[OF i] i by blast
qed

lemma adjust_selected_keeps:
  "cls (adjust_selected m) = cls m"
  "options (adjust_selected m) = options m"
  "selectedItems (adjust_selected m) = selectedItems m"
  "searchMode (adjust_selected m) = searchMode m"
  by (simp_all add: adjust_selected_def Let_def)

lemma adjust_selected_selected:
  assumes "options m \<noteq> []"
  shows "selected (adjust_selected m) = min (len_options m - 1) (max 0 (selected m))"
proof -
  have "1 \<le> len_options m"
    using assms by (cases "options m") (simp_all add: len_options_def)
  then show ?thesis
    by (auto simp: adjust_selected_def Let_def len_options_def)
qed

lemma on_down_keeps:
  "cls (on_down m) = cls m"
  "options (on_down m) = options m"
  "selectedItems (on_down m) = selectedItems m"
  "searchMode (on_down m) = searchMode m"
  by (simp_all add: on_down_def Let_def adjust_selected_keeps)

lemma on_down_selected:
  assumes "options m \<noteq> []"
  shows "selected (on_down m) = min (len_options m - 1) (max 0 (selected m + 1))"
proof -
  let ?m1 = "if selected m = first m + items_in_page m - 1 then m\<lparr>first := first m + 1\<rparr> else m"
  have "options (?m1\<lparr>selected := selected ?m1 + 1\<rparr>) \<noteq> []" using assms by simp
  from adjust_selected_selected[OF this] show ?thesis
    by (simp add: on_down_def Let_def len_options_def)
qed

lemma Menu_dispatch_space:
  "cls m = MultiSelectMenu \<Longrightarrow> Menu_dispatch_key m ''space'' = on_space m"
  by (simp add: Menu_dispatch_key_def)

lemma dispatch_space:
  "cls m = MultiSelectMenu \<Longrightarrow> dispatch_key m ''space'' = on_space m"
  by (simp add: dispatch_long_key Menu_dispatch_space)

lemma dispatch_down: "dispatch_key m ''down'' = Inr (RetNone, on_down m)"
  by (simp add: dispatch_long_key Menu_dispatch_nav)

lemma show_menu_init_fields:
  assumes "show_menu_init tsize ttl opts dflt h multi = Inr m"
  shows "options m = opts \<and> allOptions m = opts \<and> selected m = 0 \<and> first m = 0 \<and>
         \<not> searchMode m \<and> selectedItems m = {} \<and> result m = ResNone \<and>
         cls m = (if multi then MultiSelectMenu else SearchMenu)"
  using assms
  by (auto simp: show_menu_init_def Menu_init_def Let_def SearchMixin_init_def
      MultiSelectMixin_init_def refilter_def split: sum.splits if_splits)

section \<open>Multiple selection\<close>

lemma xyz_run:
  assumes c0: "cls m0 = MultiSelectMenu" and o0: "options m0 = [''x'', ''y'', ''z'']" and
    s0: "selected m0 = 0" and i0: "selectedItems m0 = {}"
  shows "\<exists>m'. run_keys m0 [''space'', ''down'', ''space'', ''enter''] = Finalized m' \<and>
           result m' = ResList [''x'', ''z'']"
proof -
  define a where "a = m0\<lparr>selectedItems := {''x''}\<rparr>"
  define m1 where "m1 = on_down a"
  have sp1: "on_space m0 = Inr (RetNone, m1)"
    by (simp add: on_space_def py_getitem_def o0 s0 i0 m1_def a_def)
  have c1: "cls m1 = MultiSelectMenu" and o1: "options m1 = [''x'', ''y'', ''z'']" and
    i1: "selectedItems m1 = {''x''}"
    by (simp_all add: m1_def on_down_keeps a_def c0 o0)
  have s1: "selected m1 = 1"
    using on_down_selected[of a] by (simp add: m1_def a_def o0 s0 len_options_def)
  define m2 where "m2 = on_down m1"
  have c2: "cls m2 = MultiSelectMenu" and o2: "options m2 = [''x'', ''y'', ''z'']" and
    i2: "selectedItems m2 = {''x''}"
    by (simp_all add: m2_def on_down_keeps c1 o1 i1)
  have s2: "selected m2 = 2"
    using on_down_selected[of m1] by (simp add: m2_def o1 s1 len_options_def)
  define b where "b = m2\<lparr>selectedItems := {''z'', ''x''}\<rparr>"
  define m3 where "m3 = on_down b"
  have sp3: "on_space m2 = Inr (RetNone, m3)"
    by (simp add: on_space_def py_getitem_def o2 s2 i2 m3_def b_def)
  have c3: "cls m3 = MultiSelectMenu" and i3: "selectedItems m3 = {''z'', ''x''}"
    by (simp_all add: m3_def on_down_keeps b_def c2)
  have srt: "sorted_list_of_set {''z'', ''x''} = [''x'', ''z'']" by simp
  have en: "on_enter m3 = Inr (RetTrue, m3\<lparr>result := ResList [''x'', ''z'']\<rparr>)"
    by (simp add: on_enter_def c3 MultiSelectMixin_on_enter_def i3 srt)
  have d1: "dispatch_key m0 ''space'' = Inr (RetNone, m1)" by (simp only: dispatch_space[OF c0] sp1)
  have d2: "dispatch_key m1 ''down'' = Inr (RetNone, m2)" by (simp only: dispatch_down m2_def)
  have d3: "dispatch_key m2 ''space'' = Inr (RetNone, m3)" by (simp only: dispatch_space[OF c2] sp3)
  have d4: "dispatch_key m3 ''enter'' = Inr (RetTrue, m3\<lparr>result := ResList [''x'', ''z'']\<rparr>)"
    by (simp only: dispatch_enter en)
  have "run_keys m0 [''space'', ''down'', ''space'', ''enter'']
          = Finalized (m3\<lparr>result := ResList [''x'', ''z'']\<rparr>)"
    by (simp add: d1 d2 d3 d4 truthy_def)
  then show ?thesis by simp
qed

text \<open>
  C5, as amended. Whatever the terminal size, title, default and height are, the object that
  \<open>show_menu(title, ["x","y","z"], default, height, multiSelect=True)\<close> builds starts at
  \<open>selected = 0\<close>, and the keys space, down, space, enter finalize it with result
  ["x","z"]: space toggles "x" and moves the cursor to "y", down moves it to "z", the second
  space toggles "z", and enter returns the sorted selection.
\<close>

theorem space_down_space_enter:
  assumes "show_menu_init tsize ttl [''x'', ''y'', ''z''] dflt h True = Inr m0"
  shows "selected m0 = 0 \<and>
         finalized_with (run_keys m0 [''space'', ''down'', ''space'', ''enter''])
           (ResList [''x'', ''z''])"
proof -
  from show_menu_init_fields[OF assms] have
    c0: "cls m0 = MultiSelectMenu" and o0: "options m0 = [''x'', ''y'', ''z'']" and
    s0: "selected m0 = 0" and i0: "selectedItems m0 = {}" by simp_all
  from xyz_run[OF c0 o0 s0 i0] obtain m' where
    r: "run_keys m0 [''space'', ''down'', ''space'', ''enter''] = Finalized m'" and
    v: "result m' = ResList [''x'', ''z'']" by blast
  have "finalized_with (run_keys m0 [''space'', ''down'', ''space'', ''enter''])
           (ResList [''x'', ''z''])"
    unfolding r finalized_with_def using v by simp
  then show ?thesis using s0 by (rule_tac conjI)
qed

theorem space_down_space_enter_witness:
  "show_menu_init (80, 24) ''Pick'' [''x'', ''y'', ''z''] None None True = Inr menu_xyz \<and>
   selected menu_xyz = 0 \<and>
   finalized_with (run_keys menu_xyz [''space'', ''down'', ''space'', ''enter''])
     (ResList [''x'', ''z''])"
  by (rule conjI[OF show_menu_init_xyz space_down_space_enter[OF show_menu_init_xyz]])

text \<open>The same run does not finalize with ["x","y"].\<close>

theorem space_down_space_enter_not_xy:
  "show_menu_init (80, 24) ''Pick'' [''x'', ''y'', ''z''] None None True = Inr menu_xyz \<and>
   \<not> finalized_with (run_keys menu_xyz [''space'', ''down'', ''space'', ''enter''])
       (ResList [''x'', ''y''])"
proof -
  have "cls menu_xyz = MultiSelectMenu" "options menu_xyz = [''x'', ''y'', ''z'']"
    "selected menu_xyz = 0" "selectedItems menu_xyz = {}"
    by (simp_all add: menu_xyz_def)
  from xyz_run[OF this] obtain m' where
    r: "run_keys menu_xyz [''space'', ''down'', ''space'', ''enter''] = Finalized m'" and
    v: "result m' = ResList [''x'', ''z'']" by blast
  have "\<not> finalized_with (run_keys menu_xyz [''space'', ''down'', ''space'', ''enter''])
       (ResList [''x'', ''y''])"
    unfolding r finalized_with_def using v by simp
  then show ?thesis by (rule conjI[OF show_menu_init_xyz])
qed

lemma multi_esc_not_searching:
  assumes "cls m = MultiSelectMenu" "\<not> searchMode m"
  shows "dispatch_key m ''esc'' = Inr (RetTrue, m\<lparr>result := ResNone\<rparr>)"
  using assms
  by (simp add: dispatch_esc on_esc_def MultiSelectMixin_on_esc_def SearchMixin_on_esc_def Menu_on_esc_def)

text \<open>
  C2. In the multi-select class, \<open>MultiSelectMixin._on_esc\<close> stores the empty list in
  \<open>self.result\<close> and then calls the next \<open>_on_esc\<close> of the method resolution order;
  outside search mode that is \<open>Menu._on_esc\<close>, which stores \<open>None\<close> over it. At the
  object of \<open>show_menu("Pick", ["x","y","z"], multiSelect=True)\<close> the key esc finalizes
  with result \<open>None\<close>, not with the empty list.
\<close>

theorem multi_select_esc_returns_none:
  "show_menu_init (80, 24) ''Pick'' [''x'', ''y'', ''z''] None None True = Inr menu_xyz \<and>
   MultiSelectMixin_on_esc menu_xyz = (RetTrue, menu_xyz\<lparr>result := ResNone\<rparr>) \<and>
   run_keys menu_xyz [''esc''] = Finalized (menu_xyz\<lparr>result := ResNone\<rparr>) \<and>
   finalized_with (run_keys menu_xyz [''esc'']) ResNone \<and>
   \<not> finalized_with (run_keys menu_xyz [''esc'']) (ResList [])"
proof -
  have c: "cls menu_xyz = MultiSelectMenu" "\<not> searchMode menu_xyz" by (simp_all add: menu_xyz_def)
  have r: "run_keys menu_xyz [''esc''] = Finalized (menu_xyz\<lparr>result := ResNone\<rparr>)"
    by (simp add: multi_esc_not_searching[OF c] truthy_def)
  have e: "MultiSelectMixin_on_esc menu_xyz = (RetTrue, menu_xyz\<lparr>result := ResNone\<rparr>)"
    using c by (simp add: MultiSelectMixin_on_esc_def SearchMixin_on_esc_def Menu_on_esc_def)
  show ?thesis using show_menu_init_xyz r e by (simp add: finalized_with_def)
qed

section \<open>Search\<close>

lemma str_in_empty: "str_in [] s"
  by (cases s) simp_all

lemma refilter_empty_query:
  assumes "searchMode m" "searchText m = []"
  shows "options (refilter m) = allOptions m"
proof -
  have "filter (\<lambda>(i, x). str_in (lower []) (lower x)) zs = zs" for zs :: "(int \<times> string) list"
    by (induction zs) (auto simp: lower_def str_in_empty)
  then show ?thesis using assms
    by (simp add: refilter_def Let_def)
qed

lemma refilter_keeps:
  "selected (refilter m) = 0" "first (refilter m) = 0"
  "cls (refilter m) = cls m" "allOptions (refilter m) = allOptions m"
  "searchMode (refilter m) = searchMode m" "searchText (refilter m) = searchText m"
  "result (refilter m) = result m" "selectedItems (refilter m) = selectedItems m"
  by (simp_all add: refilter_def Let_def)

lemma refilter_not_searching: "\<not> searchMode m \<Longrightarrow> options (refilter m) = allOptions m"
  by (simp add: refilter_def)

lemma dispatch_printable:
  assumes "cls m \<noteq> PlainMenu" "printable_key [c]"
  shows "dispatch_key m [c] =
           Inr (RetNone, refilter ((start_search m)\<lparr>searchText := searchText (start_search m) @ [c]\<rparr>))"
  using assms
  by (cases "cls m") (simp_all add: dispatch_key_def SearchMixin_dispatch_key_def Let_def)

lemma Menu_dispatch_backspace:
  "cls m \<noteq> PlainMenu \<Longrightarrow> Menu_dispatch_key m ''backspace'' = Inr (RetNone, on_backspace m)"
  by (simp add: Menu_dispatch_key_def)

lemma dispatch_backspace:
  "cls m \<noteq> PlainMenu \<Longrightarrow> dispatch_key m ''backspace'' = Inr (RetNone, on_backspace m)"
  by (simp add: dispatch_long_key Menu_dispatch_backspace)

lemma run_keys_step:
  "dispatch_key m k = Inr (RetNone, m1) \<Longrightarrow> run_keys m (k # ks) = run_keys m1 ks"
  by (simp add: truthy_def)

lemma typing_in_search_mode:
  assumes "cls m \<noteq> PlainMenu" "searchMode m" "\<forall>c\<in>set cs. printable_key [c]"
  shows "\<exists>m'. (\<forall>rest. run_keys m (type_keys cs @ rest) = run_keys m' rest) \<and>
           cls m' = cls m \<and> allOptions m' = allOptions m \<and> searchMode m' \<and>
           searchText m' = searchText m @ cs"
  using assms
proof (induction cs arbitrary: m)
  case Nil
  have "(\<forall>rest. run_keys m (type_keys [] @ rest) = run_keys m rest) \<and>
           cls m = cls m \<and> allOptions m = allOptions m \<and> searchMode m \<and>
           searchText m = searchText m @ []"
    using Nil.prems(2) by (simp add: type_keys_def)
  then show ?case by (rule exI)
next
  case (Cons c cs)
  let ?m1 = "refilter ((start_search m)\<lparr>searchText := searchText (start_search m) @ [c]\<rparr>)"
  have d: "dispatch_key m [c] = Inr (RetNone, ?m1)"
    using dispatch_printable[of m c] Cons.prems by simp
  have p1: "cls ?m1 = cls m" "allOptions ?m1 = allOptions m" "searchMode ?m1"
    "searchText ?m1 = searchText m @ [c]"
    using Cons.prems(2) by (simp_all add: refilter_keeps start_search_def)
  have "cls ?m1 \<noteq> PlainMenu" "\<forall>c\<in>set cs. printable_key [c]"
    using p1 Cons.prems by simp_all
  from Cons.IH[OF this(1) p1(3) this(2)] obtain m' where
    r: "\<forall>rest. run_keys ?m1 (type_keys cs @ rest) = run_keys m' rest" and
    q: "cls m' = cls ?m1" "allOptions m' = allOptions ?m1" "searchMode m'"
       "searchText m' = searchText ?m1 @ cs" by blast
  have "\<forall>rest. run_keys m (type_keys (c # cs) @ rest) = run_keys m' rest"
    using r run_keys_step[OF d] by (simp add: type_keys_def)
  moreover have "cls m' = cls m" "allOptions m' = allOptions m" "searchText m' = searchText m @ c # cs"
    using q p1 by simp_all
  ultimately show ?case using q(3) by blast
qed

lemma erasing_whole_query:
  assumes "cls m \<noteq> PlainMenu" "searchMode m" "length (searchText m) = n" "0 < n"
  shows "\<exists>m'. run_keys m (replicate n ''backspace'') = Browsing m' \<and>
           cls m' = cls m \<and> allOptions m' = allOptions m \<and> searchMode m' \<and> searchText m' = [] \<and>
           options m' = allOptions m \<and> selected m' = 0 \<and> first m' = 0"
  using assms
proof (induction n arbitrary: m)
  case 0
  then show ?case by simp
next
  case (Suc n)
  let ?m1 = "refilter (m\<lparr>searchText := butlast (searchText m)\<rparr>)"
  have ne: "searchText m \<noteq> []" using Suc.prems(3) by auto
  have b: "on_backspace m = ?m1" using Suc.prems(2) ne by (simp add: on_backspace_def)
  have d: "dispatch_key m ''backspace'' = Inr (RetNone, ?m1)"
    using dispatch_backspace[OF Suc.prems(1)] b by simp
  have p1: "cls ?m1 = cls m" "allOptions ?m1 = allOptions m" "searchMode ?m1"
    "searchText ?m1 = butlast (searchText m)" "selected ?m1 = 0" "first ?m1 = 0"
    using Suc.prems(2) by (simp_all add: refilter_keeps)
  have l1: "length (searchText ?m1) = n" using p1(4) Suc.prems(3) by simp
  have step: "run_keys m (replicate (Suc n) ''backspace'') = run_keys ?m1 (replicate n ''backspace'')"
    using run_keys_step[OF d] by simp
  show ?case
  proof (cases "n = 0")
    case True
    have "butlast (searchText m) = []"
      using l1[unfolded p1(4) True] by (simp only: length_0_conv)
    then have e: "searchText (m\<lparr>searchText := butlast (searchText m)\<rparr>) = []"
      by simp
    have o: "options ?m1 = allOptions m"
      using refilter_empty_query[OF _ e] Suc.prems(2) by simp
    have "run_keys m (replicate (Suc n) ''backspace'') = Browsing ?m1"
      using step True by simp
    moreover have "searchText ?m1 = []" using l1 True by simp
    ultimately show ?thesis using p1 o by blast
  next
    case False
    then have "0 < n" by simp
    have "cls ?m1 \<noteq> PlainMenu" using p1(1) Suc.prems(1) by simp
    from Suc.IH[OF this p1(3) l1 \<open>0 < n\<close>] obtain m' where
      r: "run_keys ?m1 (replicate n ''backspace'') = Browsing m'" and
      q: "cls m' = cls ?m1" "allOptions m' = allOptions ?m1" "searchMode m'" "searchText m' = []"
         "options m' = allOptions ?m1" "selected m' = 0" "first m' = 0" by blast
    have "run_keys m (replicate (Suc n) ''backspace'') = Browsing m'" using step r by simp
    moreover have "cls m' = cls m" "allOptions m' = allOptions m" "options m' = allOptions m"
      using q p1 by simp_all
    ultimately show ?thesis using q by blast
  qed
qed

text \<open>
  C6. Take a menu object with the search mixin (either class of \<open>show_menu\<close>), over any
  full option list, that is not in search mode, as it is after construction. Type any
  sequence of k printable characters and then press backspace k times: no key finalizes or
  raises, and afterwards the visible option list equals the full option list, and
  \<open>selected = 0\<close> and \<open>first = 0\<close>. For \<open>k = 0\<close> nothing is dispatched, so the
  statement is about a state that is unfiltered and at \<open>0/0\<close> already, as the constructed
  one is. (After \<open>k > 0\<close> the object is still in search mode, with an empty query.)
\<close>

theorem filter_round_trip:
  assumes "cls m \<noteq> PlainMenu" and "\<not> searchMode m"
    and "\<forall>c\<in>set cs. printable_key [c]"
    and "cs = [] \<longrightarrow> options m = allOptions m \<and> selected m = 0 \<and> first m = 0"
  shows "\<exists>m'. run_keys m (type_keys cs @ replicate (length cs) ''backspace'') = Browsing m' \<and>
           options m' = allOptions m \<and> allOptions m' = allOptions m \<and>
           selected m' = 0 \<and> first m' = 0 \<and> searchMode m' = (cs \<noteq> [])"
proof (cases cs)
  case Nil
  then show ?thesis using assms(2,4) by (simp add: type_keys_def)
next
  case (Cons c cs')
  let ?m1 = "refilter ((start_search m)\<lparr>searchText := searchText (start_search m) @ [c]\<rparr>)"
  have pc: "printable_key [c]" "\<forall>c\<in>set cs'. printable_key [c]" using assms(3) Cons by simp_all
  have d: "dispatch_key m [c] = Inr (RetNone, ?m1)"
    by (rule dispatch_printable[OF assms(1) pc(1)])
  have p1: "cls ?m1 = cls m" "allOptions ?m1 = allOptions m" "searchMode ?m1"
    "searchText ?m1 = [c]"
    using assms(2) by (simp_all add: refilter_keeps start_search_def)
  have c1: "cls ?m1 \<noteq> PlainMenu" using p1(1) assms(1) by simp
  from typing_in_search_mode[OF c1 p1(3) pc(2)] obtain m2 where
    r2: "\<forall>rest. run_keys ?m1 (type_keys cs' @ rest) = run_keys m2 rest" and
    q2: "cls m2 = cls ?m1" "allOptions m2 = allOptions ?m1" "searchMode m2"
        "searchText m2 = searchText ?m1 @ cs'" by blast
  have l2: "length (searchText m2) = length cs" using q2(4) p1(4) Cons by simp
  have c2: "cls m2 \<noteq> PlainMenu" using q2(1) c1 by simp
  have "0 < length cs" using Cons by simp
  from erasing_whole_query[OF c2 q2(3) l2 this] obtain m' where
    r3: "run_keys m2 (replicate (length cs) ''backspace'') = Browsing m'" and
    q3: "allOptions m' = allOptions m2" "searchMode m'" "options m' = allOptions m2"
        "selected m' = 0" "first m' = 0" by blast
  have "run_keys m (type_keys cs @ replicate (length cs) ''backspace'')
          = run_keys ?m1 (type_keys cs' @ replicate (length cs) ''backspace'')"
    using run_keys_step[OF d] Cons by (simp add: type_keys_def)
  also have "\<dots> = Browsing m'" using r2 r3 by simp
  finally have "run_keys m (type_keys cs @ replicate (length cs) ''backspace'') = Browsing m'" .
  moreover have "options m' = allOptions m" "allOptions m' = allOptions m"
    using q3 q2(2) p1(2) by simp_all
  moreover have "searchMode m' = (cs \<noteq> [])" using q3(2) Cons by simp
  ultimately show ?thesis using q3(4,5) by blast
qed

theorem filter_round_trip_witness:
  "cls menu_fruit \<noteq> PlainMenu \<and> \<not> searchMode menu_fruit \<and>
   printable_key ''z'' \<and> printable_key ''Q'' \<and>
   (\<exists>m'. run_keys menu_fruit (type_keys ''zQ'' @ replicate (length ''zQ'') ''backspace'') = Browsing m' \<and>
           options m' = allOptions menu_fruit \<and> allOptions m' = allOptions menu_fruit \<and>
           selected m' = 0 \<and> first m' = 0 \<and> searchMode m' = (''zQ'' \<noteq> []))"
proof -
  have h1: "cls menu_fruit \<noteq> PlainMenu" and h2: "\<not> searchMode menu_fruit"
    by (simp_all add: menu_fruit_def)
  have p: "printable_key ''z''" "printable_key ''Q''" by (simp_all add: printable_key_def)
  then have h3: "\<forall>c\<in>set ''zQ''. printable_key [c]" by simp
  have h4: "''zQ'' = [] \<longrightarrow> options menu_fruit = allOptions menu_fruit \<and> selected menu_fruit = 0 \<and> first menu_fruit = 0"
    by simp
  note t = filter_round_trip[OF h1 h2 h3 h4]
  show ?thesis by (intro conjI h1 h2 p t)
qed

lemma stop_search_fields:
  assumes "searchMode m"
  shows "\<not> searchMode (stop_search m)" "options (stop_search m) = allOptions m"
    "allOptions (stop_search m) = allOptions m" "selected (stop_search m) = 0"
    "first (stop_search m) = 0"
  using assms by (simp_all add: stop_search_def refilter_keeps refilter_not_searching)

text \<open>
  C7. With the search mixin, esc in search mode returns \<open>False\<close>: the loop of \<open>show\<close>
  goes on with the next key; the object has left search mode, its visible options are the
  full option list again, and \<open>selected = 0\<close>, \<open>first = 0\<close>. Outside search mode esc
  returns \<open>True\<close>: the run is finalized with result \<open>None\<close>.
\<close>

theorem esc_while_searching:
  assumes "cls m \<noteq> PlainMenu"
  shows "(searchMode m \<longrightarrow>
           (\<exists>r m'. dispatch_key m ''esc'' = Inr (r, m') \<and> \<not> truthy r \<and>
              run_keys m (''esc'' # ks) = run_keys m' ks \<and>
              \<not> searchMode m' \<and> options m' = allOptions m \<and> allOptions m' = allOptions m \<and>
              selected m' = 0 \<and> first m' = 0)) \<and>
         (\<not> searchMode m \<longrightarrow>
           (\<exists>r m'. dispatch_key m ''esc'' = Inr (r, m') \<and> truthy r \<and>
              run_keys m (''esc'' # ks) = Finalized m' \<and> result m' = ResNone))"
proof (intro conjI impI)
  assume s: "searchMode m"
  let ?m0 = "if cls m = MultiSelectMenu then m\<lparr>result := ResList []\<rparr> else m"
  have s0: "searchMode ?m0" and a0: "allOptions ?m0 = allOptions m" using s by simp_all
  have d: "dispatch_key m ''esc'' = Inr (RetFalse, stop_search ?m0)"
    using assms s
    by (cases "cls m")
       (simp_all add: dispatch_esc on_esc_def MultiSelectMixin_on_esc_def SearchMixin_on_esc_def)
  have r: "run_keys m (''esc'' # ks) = run_keys (stop_search ?m0) ks"
    by (simp only: run_keys.simps d sum.case prod.case truthy_def) simp
  show "\<exists>r m'. dispatch_key m ''esc'' = Inr (r, m') \<and> \<not> truthy r \<and>
              run_keys m (''esc'' # ks) = run_keys m' ks \<and>
              \<not> searchMode m' \<and> options m' = allOptions m \<and> allOptions m' = allOptions m \<and>
              selected m' = 0 \<and> first m' = 0"
    using d r stop_search_fields[OF s0] a0 by (auto simp: truthy_def)
next
  assume s: "\<not> searchMode m"
  have d: "dispatch_key m ''esc'' = Inr (RetTrue, m\<lparr>result := ResNone\<rparr>)"
    using assms s
    by (cases "cls m")
       (simp_all add: dispatch_esc on_esc_def MultiSelectMixin_on_esc_def SearchMixin_on_esc_def
          Menu_on_esc_def)
  have r: "run_keys m (''esc'' # ks) = Finalized (m\<lparr>result := ResNone\<rparr>)"
    by (simp only: run_keys.simps d sum.case prod.case truthy_def) simp
  show "\<exists>r m'. dispatch_key m ''esc'' = Inr (r, m') \<and> truthy r \<and>
              run_keys m (''esc'' # ks) = Finalized m' \<and> result m' = ResNone"
    using d r by (auto simp: truthy_def)
qed

lemma py_getitem_empty: "py_getitem [] i = Inl IndexError"
  by (simp add: py_getitem_def)

text \<open>
  C10. Whenever the visible option list is empty, \<open>Menu._on_enter\<close> and \<open>_on_space\<close>
  raise IndexError; so enter raises in the single-select classes always, and in the
  multi-select class when the selection set is empty (with a non-empty selection set it
  finalizes with the sorted selection), and space raises in the multi-select class. The
  state is reachable: typing q over apple, buzz, fizz, grape, or over x, y, z, filters
  every option out.
\<close>

theorem enter_on_empty_list_raises:
  assumes "options m = []"
  shows "Menu_on_enter m = Inl IndexError \<and> on_space m = Inl IndexError \<and>
         (cls m \<noteq> MultiSelectMenu \<longrightarrow>
            dispatch_key m ''enter'' = Inl IndexError \<and>
            run_keys m (''enter'' # ks) = Raised IndexError) \<and>
         (cls m = MultiSelectMenu \<longrightarrow>
            dispatch_key m ''space'' = Inl IndexError \<and>
            run_keys m (''space'' # ks) = Raised IndexError \<and>
            (selectedItems m = {} \<longrightarrow>
               dispatch_key m ''enter'' = Inl IndexError \<and>
               run_keys m (''enter'' # ks) = Raised IndexError) \<and>
            (selectedItems m \<noteq> {} \<longrightarrow>
               dispatch_key m ''enter''
                 = Inr (RetTrue, m\<lparr>result := ResList (sorted_list_of_set (selectedItems m))\<rparr>)))"
proof -
  have e: "Menu_on_enter m = Inl IndexError"
    by (simp add: Menu_on_enter_def assms py_getitem_empty)
  have sp: "on_space m = Inl IndexError"
    by (simp add: on_space_def assms py_getitem_empty)
  have raise: "dispatch_key m k = Inl IndexError \<Longrightarrow> run_keys m (k # ks) = Raised IndexError" for k
    by simp
  have single: "dispatch_key m ''enter'' = Inl IndexError" if "cls m \<noteq> MultiSelectMenu"
    using that e by (cases "cls m") (simp_all add: dispatch_enter on_enter_def)
  have mspace: "dispatch_key m ''space'' = Inl IndexError" if "cls m = MultiSelectMenu"
    using dispatch_space[OF that] sp by simp
  have menter: "dispatch_key m ''enter'' = Inl IndexError"
    if "cls m = MultiSelectMenu" "selectedItems m = {}"
    using that by (simp add: dispatch_enter on_enter_def MultiSelectMixin_on_enter_def assms py_getitem_empty)
  have mfull: "dispatch_key m ''enter''
                 = Inr (RetTrue, m\<lparr>result := ResList (sorted_list_of_set (selectedItems m))\<rparr>)"
    if "cls m = MultiSelectMenu" "selectedItems m \<noteq> {}"
    using that by (simp add: dispatch_enter on_enter_def MultiSelectMixin_on_enter_def)
  show ?thesis
    using e sp raise[OF single] single raise[OF mspace] mspace raise[OF menter] menter mfull
    by blast
qed

lemma dispatch_q_fruit: "dispatch_key menu_fruit ''q'' = Inr (RetNone, menu_fruit_q)"
proof -
  have "cls menu_fruit \<noteq> PlainMenu" "printable_key ''q''"
    by (simp_all add: menu_fruit_def printable_key_def)
  from dispatch_printable[OF this] show ?thesis
    by (simp add: menu_fruit_q_def menu_fruit_def start_search_def refilter_def lower_def lower_char_def)
qed

lemma dispatch_q_xyz: "dispatch_key menu_xyz ''q'' = Inr (RetNone, menu_xyz_q)"
proof -
  have "cls menu_xyz \<noteq> PlainMenu" "printable_key ''q''"
    by (simp_all add: menu_xyz_def printable_key_def)
  from dispatch_printable[OF this] show ?thesis
    by (simp add: menu_xyz_q_def menu_xyz_def start_search_def refilter_def lower_def lower_char_def)
qed

theorem esc_while_searching_witness:
  "cls menu_fruit_q \<noteq> PlainMenu \<and> searchMode menu_fruit_q \<and>
   (\<exists>r m'. dispatch_key menu_fruit_q ''esc'' = Inr (r, m') \<and> \<not> truthy r \<and>
      run_keys menu_fruit_q (''esc'' # [''down'']) = run_keys m' [''down''] \<and>
      \<not> searchMode m' \<and> options m' = allOptions menu_fruit_q \<and>
      allOptions m' = allOptions menu_fruit_q \<and> selected m' = 0 \<and> first m' = 0) \<and>
   cls menu_fruit \<noteq> PlainMenu \<and> \<not> searchMode menu_fruit \<and>
   (\<exists>r m'. dispatch_key menu_fruit ''esc'' = Inr (r, m') \<and> truthy r \<and>
      run_keys menu_fruit (''esc'' # [''down'']) = Finalized m' \<and> result m' = ResNone)"
proof -
  have h1: "cls menu_fruit_q \<noteq> PlainMenu" and s1: "searchMode menu_fruit_q"
    by (simp_all add: menu_fruit_q_def menu_fruit_def)
  have h2: "cls menu_fruit \<noteq> PlainMenu" and s2: "\<not> searchMode menu_fruit"
    by (simp_all add: menu_fruit_def)
  note t1 = esc_while_searching[OF h1, of "[''down'']", THEN conjunct1, THEN mp, OF s1]
  note t2 = esc_while_searching[OF h2, of "[''down'']", THEN conjunct2, THEN mp, OF s2]
  show ?thesis by (intro conjI h1 s1 t1 h2 s2 t2)
qed

theorem enter_on_empty_list_raises_witness:
  "show_menu_init (80, 24) ''Pick'' [''apple'', ''buzz'', ''fizz'', ''grape''] None None False
     = Inr menu_fruit \<and>
   dispatch_key menu_fruit ''q'' = Inr (RetNone, menu_fruit_q) \<and>
   options menu_fruit_q = [] \<and> cls menu_fruit_q \<noteq> MultiSelectMenu \<and>
   dispatch_key menu_fruit_q ''enter'' = Inl IndexError \<and>
   run_keys menu_fruit [''q'', ''enter''] = Raised IndexError \<and>
   show_menu_init (80, 24) ''Pick'' [''x'', ''y'', ''z''] None None True = Inr menu_xyz \<and>
   dispatch_key menu_xyz ''q'' = Inr (RetNone, menu_xyz_q) \<and>
   options menu_xyz_q = [] \<and> cls menu_xyz_q = MultiSelectMenu \<and> selectedItems menu_xyz_q = {} \<and>
   dispatch_key menu_xyz_q ''enter'' = Inl IndexError \<and>
   run_keys menu_xyz [''q'', ''enter''] = Raised IndexError \<and>
   dispatch_key menu_xyz_q ''space'' = Inl IndexError \<and>
   run_keys menu_xyz [''q'', ''space''] = Raised IndexError \<and>
   options (menu_xyz_q\<lparr>selectedItems := {''x''}\<rparr>) = [] \<and>
   selectedItems (menu_xyz_q\<lparr>selectedItems := {''x''}\<rparr>) \<noteq> {} \<and>
   dispatch_key (menu_xyz_q\<lparr>selectedItems := {''x''}\<rparr>) ''enter''
     = Inr (RetTrue, menu_xyz_q\<lparr>selectedItems := {''x''}, result := ResList [''x'']\<rparr>)"
proof -
  have o1: "options menu_fruit_q = []" and c1: "cls menu_fruit_q \<noteq> MultiSelectMenu"
    by (simp_all add: menu_fruit_q_def menu_fruit_def)
  have o2: "options menu_xyz_q = []" and c2: "cls menu_xyz_q = MultiSelectMenu"
    and i2: "selectedItems menu_xyz_q = {}"
    by (simp_all add: menu_xyz_q_def menu_xyz_def)
  note t1 = enter_on_empty_list_raises[OF o1, of "[]"]
  note t2 = enter_on_empty_list_raises[OF o2, of "[]"]
  have a1: "dispatch_key menu_fruit_q ''enter'' = Inl IndexError"
    and b1: "run_keys menu_fruit_q [''enter''] = Raised IndexError"
    using t1 c1 by blast+
  have a2: "dispatch_key menu_xyz_q ''enter'' = Inl IndexError"
    and b2: "run_keys menu_xyz_q [''enter''] = Raised IndexError"
    and a3: "dispatch_key menu_xyz_q ''space'' = Inl IndexError"
    and b3: "run_keys menu_xyz_q [''space''] = Raised IndexError"
    using t2 c2 i2 by blast+
  have r1: "run_keys menu_fruit [''q'', ''enter''] = Raised IndexError"
    using run_keys_step[OF dispatch_q_fruit, of "[''enter'']"] b1 by simp
  have r2: "run_keys menu_xyz [''q'', ''enter''] = Raised IndexError"
    using run_keys_step[OF dispatch_q_xyz, of "[''enter'']"] b2 by simp
  have r3: "run_keys menu_xyz [''q'', ''space''] = Raised IndexError"
    using run_keys_step[OF dispatch_q_xyz, of "[''space'']"] b3 by simp
  have o3: "options (menu_xyz_q\<lparr>selectedItems := {''x''}\<rparr>) = []"
    and c3: "cls (menu_xyz_q\<lparr>selectedItems := {''x''}\<rparr>) = MultiSelectMenu"
    and i3: "selectedItems (menu_xyz_q\<lparr>selectedItems := {''x''}\<rparr>) \<noteq> {}"
    by (simp_all add: menu_xyz_q_def menu_xyz_def)
  note t3 = enter_on_empty_list_raises[OF o3, of "[]"]
  have "dispatch_key (menu_xyz_q\<lparr>selectedItems := {''x''}\<rparr>) ''enter''
     = Inr (RetTrue, menu_xyz_q\<lparr>selectedItems := {''x''},
          result := ResList (sorted_list_of_set
            (selectedItems (menu_xyz_q\<lparr>selectedItems := {''x''}\<rparr>)))\<rparr>)"
    using t3 c3 i3 by blast
  then have a4: "dispatch_key (menu_xyz_q\<lparr>selectedItems := {''x''}\<rparr>) ''enter''
     = Inr (RetTrue, menu_xyz_q\<lparr>selectedItems := {''x''}, result := ResList [''x'']\<rparr>)"
    by simp
  show ?thesis
    by (intro conjI show_menu_init_fruit dispatch_q_fruit o1 c1 a1 r1
        show_menu_init_xyz dispatch_q_xyz o2 c2 i2 a2 r2 a3 r3 o3 i3 a4)
qed

section \<open>Paging down through the list\<close>

lemma config_items:
  assumes "same_config m s"
  shows "items_in_page s = items_in_page m" "len_options s = len_options m"
  using assms by (simp_all add: same_config_def items_in_page_def len_options_def)

lemma window_update_items:
  "items_in_page (s\<lparr>selected := a\<rparr>) = items_in_page s"
  "items_in_page (s\<lparr>first := b\<rparr>) = items_in_page s"
  "len_options (s\<lparr>selected := a\<rparr>) = len_options s"
  "len_options (s\<lparr>first := b\<rparr>) = len_options s"
  by (simp_all add: items_in_page_def len_options_def)

lemma adjust_selected_first:
  "first (adjust_selected s) = min (max 0 (first s)) (len_options s - items_in_page s)"
  by (simp add: adjust_selected_def Let_def len_options_def items_in_page_def min_def max_def)

lemma on_pageDown_config: "same_config m (on_pageDown m)"
  using handlers_adjust(5)[of m] adjust_selected_config by (auto simp: same_config_def)

lemma on_pageDown_at_bottom:
  assumes ne: "options s \<noteq> []"
    and sel: "selected s = first s + items_in_page s - 1"
    and f0: "0 \<le> first s" and p1: "1 \<le> items_in_page s"
  shows "first (on_pageDown s) = min (first s + items_in_page s) (len_options s - items_in_page s)"
    and "selected (on_pageDown s) = first (on_pageDown s) + items_in_page s - 1"
proof -
  let ?s1 = "s\<lparr>selected := selected s + items_in_page s, first := first s + items_in_page s\<rparr>"
  have e: "on_pageDown s = adjust_selected ?s1" using sel by (simp add: on_pageDown_def)
  have le: "items_in_page s \<le> len_options s" by (simp add: items_in_page_def)
  show a: "first (on_pageDown s) = min (first s + items_in_page s) (len_options s - items_in_page s)"
    using f0 p1 by (simp add: e adjust_selected_first window_update_items)
  have "selected (on_pageDown s) = min (len_options s - 1) (max 0 (selected s + items_in_page s))"
    by (simp add: e adjust_selected_selected ne window_update_items)
  then show "selected (on_pageDown s) = first (on_pageDown s) + items_in_page s - 1"
    using a sel f0 p1 le by (simp add: min_def max_def)
qed

lemma on_pageDown_from_top:
  assumes ne: "options s \<noteq> []"
    and sel: "selected s = 0" and f0: "first s = 0" and p2: "2 \<le> items_in_page s"
  shows "first (on_pageDown s) = 0"
    and "selected (on_pageDown s) = items_in_page s - 1"
proof -
  let ?s1 = "s\<lparr>selected := first s + items_in_page s - 1\<rparr>"
  have e: "on_pageDown s = adjust_selected ?s1" using sel f0 p2 by (simp add: on_pageDown_def)
  have le: "items_in_page s \<le> len_options s" by (simp add: items_in_page_def)
  show "first (on_pageDown s) = 0"
    using f0 le by (simp add: e adjust_selected_first window_update_items)
  show "selected (on_pageDown s) = items_in_page s - 1"
    using f0 p2 le by (simp add: e adjust_selected_selected ne window_update_items)
qed

lemma run_pageDowns:
  "run_keys m (replicate k ''pageDown'') = Browsing ((on_pageDown ^^ k) m)"
proof (induction k arbitrary: m)
  case 0
  show ?case by simp
next
  case (Suc k)
  have d: "dispatch_key m ''pageDown'' = Inr (RetNone, on_pageDown m)"
    by (simp add: dispatch_long_key Menu_dispatch_nav)
  have "run_keys m (replicate (Suc k) ''pageDown'')
          = run_keys (on_pageDown m) (replicate k ''pageDown'')"
    by (simp add: d truthy_def)
  also have "\<dots> = Browsing ((on_pageDown ^^ k) (on_pageDown m))" by (rule Suc.IH)
  also have "(on_pageDown ^^ k) (on_pageDown m) = (on_pageDown ^^ Suc k) m"
    by (simp add: funpow_swap1)
  finally show ?case .
qed

lemma div_mult_bounds:
  fixes i p :: int
  assumes "1 \<le> p"
  shows "i div p * p \<le> i" and "i < i div p * p + p"
proof -
  have e: "i div p * p + i mod p = i" by simp
  have "0 \<le> i mod p" "i mod p < p" using assms by simp_all
  then show "i div p * p \<le> i" and "i < i div p * p + p" using e by linarith+
qed

lemma min_step:
  fixes x p b :: int
  assumes "1 \<le> p"
  shows "min (min x b + p) b = min (x + p) b"
  using assms by (simp add: min_def)

lemma pageDowns_closed_form:
  assumes ne: "options m \<noteq> []" and h1: "1 \<le> height m" and c1: "1 \<le> columns m"
    and s0: "selected m = 0" and f0: "first m = 0"
  defines "P \<equiv> items_in_page m" and "N \<equiv> len_options m"
  defines "d \<equiv> (if P = 1 then 0 else 1 :: nat)"
  shows "same_config m ((on_pageDown ^^ k) m) \<and>
         first ((on_pageDown ^^ k) m) = min (int (k - d) * P) (N - P) \<and>
         (d \<le> k \<longrightarrow> selected ((on_pageDown ^^ k) m) = first ((on_pageDown ^^ k) m) + P - 1) \<and>
         (k < d \<longrightarrow> selected ((on_pageDown ^^ k) m) = 0)"
proof -
  have N1: "1 \<le> N" using ne unfolding N_def by (cases "options m") (simp_all add: len_options_def)
  have "0 < height m * columns m" using h1 c1 by (simp add: zero_less_mult_iff)
  then have P1: "1 \<le> P" using N1 unfolding P_def N_def items_in_page_def by simp
  have PN: "P \<le> N" unfolding P_def N_def items_in_page_def by simp
  show ?thesis
  proof (induction k)
    case 0
    have "same_config m m" by (simp add: same_config_def)
    moreover have "first m = min (int (0 - d) * P) (N - P)" using f0 PN by simp
    moreover have "d \<le> 0 \<longrightarrow> selected m = first m + P - 1"
      using s0 f0 by (simp add: d_def split: if_splits)
    ultimately show ?case using s0 by simp
  next
    case (Suc k)
    let ?s = "(on_pageDown ^^ k) m"
    have e: "(on_pageDown ^^ Suc k) m = on_pageDown ?s" by simp
    from Suc.IH have cf: "same_config m ?s"
      and fs: "first ?s = min (int (k - d) * P) (N - P)"
      and sb: "d \<le> k \<Longrightarrow> selected ?s = first ?s + P - 1"
      and st: "k < d \<Longrightarrow> selected ?s = 0" by simp_all
    have ip: "items_in_page ?s = P" and lo: "len_options ?s = N"
      using config_items[OF cf] by (simp_all add: P_def N_def)
    have nes: "options ?s \<noteq> []" using cf ne by (simp add: same_config_def)
    have cf': "same_config m (on_pageDown ?s)"
      using cf on_pageDown_config[of ?s] by (simp add: same_config_def)
    have f_nonneg: "0 \<le> first ?s" using fs P1 PN by (simp add: min_def)
    show ?case
    proof (cases "d \<le> k")
      case True
      have a: "first (on_pageDown ?s) = min (first ?s + P) (N - P)"
        using on_pageDown_at_bottom(1)[OF nes _ f_nonneg] sb[OF True] P1 by (simp add: ip lo)
      have b: "selected (on_pageDown ?s) = first (on_pageDown ?s) + P - 1"
        using on_pageDown_at_bottom(2)[OF nes _ f_nonneg] sb[OF True] P1 by (simp add: ip lo)
      have "int (Suc k - d) = int (k - d) + 1" using True by simp
      then have "int (Suc k - d) * P = int (k - d) * P + P" by (simp add: algebra_simps)
      then have "first (on_pageDown ?s) = min (int (Suc k - d) * P) (N - P)"
        using a fs min_step[OF P1] by simp
      then show ?thesis using b cf' True unfolding e by simp
    next
      case False
      then have k0: "k = 0" and d1: "d = 1" by (simp_all add: d_def split: if_splits)
      then have P2: "2 \<le> P" using P1 by (simp add: d_def split: if_splits)
      have sz: "selected ?s = 0" using st False by simp
      have fz: "first ?s = 0" using fs k0 PN by simp
      have a: "first (on_pageDown ?s) = 0"
        using on_pageDown_from_top(1)[OF nes sz fz] P2 by (simp add: ip)
      have b: "selected (on_pageDown ?s) = P - 1"
        using on_pageDown_from_top(2)[OF nes sz fz] P2 by (simp add: ip)
      have "min (int (Suc k - d) * P) (N - P) = 0" using k0 d1 PN by simp
      then show ?thesis using a b cf' k0 d1 unfolding e by simp
    qed
  qed
qed

text \<open>
  C9. Over a non-empty option list of length N, with height and columns at least 1, start at
  \<open>selected = 0\<close>, \<open>first = 0\<close> and press pageDown again and again; no press finalizes
  or raises. There is a number K of presses such that
  \<^item> every index of the list is on the visible page after some number \<open>k \<le> K\<close> of presses;
  \<^item> no page comes back: the window start \<open>first\<close> never decreases, and from the first
    press to the K-th every press that follows another shows a new page (\<open>first\<close>
    grows strictly; the very first press only moves the cursor to the end of the first
    page when the page has more than one item);
  \<^item> after K presses \<open>selected = N - 1\<close>, and it stays there after every further press.
\<close>

theorem pageDown_tour:
  assumes ne: "options m \<noteq> []" and h1: "1 \<le> height m" and c1: "1 \<le> columns m"
    and s0: "selected m = 0" and f0: "first m = 0"
  shows "\<exists>K. (\<forall>i. 0 \<le> i \<and> i < len_options m \<longrightarrow>
                (\<exists>k\<le>K. in_page ((on_pageDown ^^ k) m) i)) \<and>
             (\<forall>j k. 1 \<le> j \<and> j < k \<and> k \<le> K \<longrightarrow>
                first ((on_pageDown ^^ j) m) < first ((on_pageDown ^^ k) m)) \<and>
             (\<forall>j k. j \<le> k \<longrightarrow>
                first ((on_pageDown ^^ j) m) \<le> first ((on_pageDown ^^ k) m)) \<and>
             selected ((on_pageDown ^^ K) m) = len_options m - 1 \<and>
             (\<forall>k\<ge>K. selected ((on_pageDown ^^ k) m) = len_options m - 1) \<and>
             (\<forall>k. run_keys m (replicate k ''pageDown'') = Browsing ((on_pageDown ^^ k) m))"
proof -
  define P where "P = items_in_page m"
  define N where "N = len_options m"
  define d :: nat where "d = (if P = 1 then 0 else 1)"
  define q where "q = (N - 1) div P"
  define K where "K = d + nat q"
  let ?pd = "\<lambda>k. (on_pageDown ^^ k) m"
  have N1: "1 \<le> N" using ne unfolding N_def by (cases "options m") (simp_all add: len_options_def)
  have HC: "0 < height m * columns m" using h1 c1 by (simp add: zero_less_mult_iff)
  then have P1: "1 \<le> P" using N1 unfolding P_def N_def items_in_page_def by simp
  have PN: "P \<le> N" unfolding P_def N_def items_in_page_def by simp
  have PH: "P \<le> height m * columns m" unfolding P_def items_in_page_def by simp
  have d1: "d \<le> 1" by (simp add: d_def)
  have q0: "0 \<le> q" using N1 P1 unfolding q_def by (simp add: pos_imp_zdiv_nonneg_iff)
  have qlo: "q * P \<le> N - 1" and qhi: "N - 1 < q * P + P"
    using div_mult_bounds[OF P1, of "N - 1"] by (simp_all add: q_def)
  note cf = pageDowns_closed_form[OF ne h1 c1 s0 f0, folded P_def N_def, folded d_def]
  have cfg: "same_config m (?pd k)" for k using cf[of k] by simp
  have fst: "first (?pd k) = min (int (k - d) * P) (N - P)" for k using cf[of k] by simp
  have sel: "selected (?pd k) = first (?pd k) + P - 1" if "d \<le> k" for k
    using cf[of k] that by simp
  have mono: "first (?pd j) \<le> first (?pd k)" if "j \<le> k" for j k
  proof -
    have "int (j - d) \<le> int (k - d)" using that by simp
    then have "int (j - d) * P \<le> int (k - d) * P" using P1 by (intro mult_right_mono) simp_all
    then show ?thesis by (simp add: fst min_def)
  qed
  have last_page: "first (?pd k) = N - P" if "K \<le> k" for k
  proof -
    have "q \<le> int (k - d)" using that q0 by (simp add: K_def)
    then have "q * P \<le> int (k - d) * P" using P1 by (intro mult_right_mono) simp_all
    then have "N - P \<le> int (k - d) * P" using qhi by linarith
    then show ?thesis by (simp add: fst min_def)
  qed
  have dK: "d \<le> K" by (simp add: K_def)
  have at_end: "selected (?pd k) = N - 1" if "K \<le> k" for k
    using sel[of k] last_page[OF that] dK that by simp
  have strict: "first (?pd j) < first (?pd k)" if "1 \<le> j" "j < k" "k \<le> K" for j k
  proof -
    have dj: "d \<le> j" using d1 that(1) by simp
    have jk: "int (j - d) + 1 \<le> int (k - d)" using dj that(2) by simp
    have "int (k - d) \<le> q" using that(3) q0 by (simp add: K_def)
    then have "int (j - d) + 1 \<le> q" using jk by simp
    then have "(int (j - d) + 1) * P \<le> q * P" using P1 by (intro mult_right_mono) simp_all
    then have a: "int (j - d) * P + P \<le> N - 1" using qlo by (simp add: algebra_simps)
    have "(int (j - d) + 1) * P \<le> int (k - d) * P"
      using jk P1 by (intro mult_right_mono) simp_all
    then have b: "int (j - d) * P + P \<le> int (k - d) * P" by (simp add: algebra_simps)
    define x y where "x = int (j - d) * P" and "y = int (k - d) * P"
    have "min x (N - P) < min y (N - P)"
      using a b P1 unfolding x_def[symmetric] y_def[symmetric] by (simp add: min_def)
    then show ?thesis unfolding fst x_def y_def .
  qed
  have cover: "\<exists>k\<le>K. in_page (?pd k) i" if "0 \<le> i" "i < N" for i
  proof -
    define k where "k = d + nat (i div P)"
    have i0: "0 \<le> i div P" using that(1) P1 by (simp add: pos_imp_zdiv_nonneg_iff)
    have "i div P \<le> q" unfolding q_def using that(2) P1 by (intro zdiv_mono1) simp_all
    then have kK: "k \<le> K" by (simp add: k_def K_def)
    have kd: "int (k - d) = i div P" using i0 by (simp add: k_def)
    have lo: "i div P * P \<le> i" and hi: "i < i div P * P + P"
      using div_mult_bounds[OF P1, of i] by simp_all
    have f: "first (?pd k) = min (i div P * P) (N - P)" by (simp add: fst kd)
    have "first (?pd k) \<le> i" using f lo by (simp add: min_def)
    moreover have "i < first (?pd k) + P" using f hi that(2) by (simp add: min_def)
    then have "i < first (?pd k) + height m * columns m" using PH by linarith
    moreover have "height (?pd k) = height m" "columns (?pd k) = columns m"
      "len_options (?pd k) = len_options m"
      using cfg[of k] by (simp_all add: same_config_def len_options_def)
    ultimately have "in_page (?pd k) i" using that by (simp add: in_page_def N_def)
    then show ?thesis using kK by blast
  qed
  have "(\<forall>i. 0 \<le> i \<and> i < len_options m \<longrightarrow> (\<exists>k\<le>K. in_page (?pd k) i)) \<and>
        (\<forall>j k. 1 \<le> j \<and> j < k \<and> k \<le> K \<longrightarrow> first (?pd j) < first (?pd k)) \<and>
        (\<forall>j k. j \<le> k \<longrightarrow> first (?pd j) \<le> first (?pd k)) \<and>
        selected (?pd K) = len_options m - 1 \<and>
        (\<forall>k\<ge>K. selected (?pd k) = len_options m - 1) \<and>
        (\<forall>k. run_keys m (replicate k ''pageDown'') = Browsing (?pd k))"
    using cover strict mono at_end run_pageDowns unfolding N_def by simp
  then show ?thesis by (rule exI[where x = K])
qed

theorem pageDown_tour_witness:
  "options menu_abcde \<noteq> [] \<and> 1 \<le> height menu_abcde \<and> 1 \<le> columns menu_abcde \<and>
   selected menu_abcde = 0 \<and> first menu_abcde = 0 \<and>
   (\<exists>K. (\<forall>i. 0 \<le> i \<and> i < len_options menu_abcde \<longrightarrow>
                (\<exists>k\<le>K. in_page ((on_pageDown ^^ k) menu_abcde) i)) \<and>
             (\<forall>j k. 1 \<le> j \<and> j < k \<and> k \<le> K \<longrightarrow>
                first ((on_pageDown ^^ j) menu_abcde) < first ((on_pageDown ^^ k) menu_abcde)) \<and>
             (\<forall>j k. j \<le> k \<longrightarrow>
                first ((on_pageDown ^^ j) menu_abcde) \<le> first ((on_pageDown ^^ k) menu_abcde)) \<and>
             selected ((on_pageDown ^^ K) menu_abcde) = len_options menu_abcde - 1 \<and>
             (\<forall>k\<ge>K. selected ((on_pageDown ^^ k) menu_abcde) = len_options menu_abcde - 1) \<and>
             (\<forall>k. run_keys menu_abcde (replicate k ''pageDown'')
                    = Browsing ((on_pageDown ^^ k) menu_abcde)))"
proof -
  have h1: "options menu_abcde \<noteq> []" and h2: "1 \<le> height menu_abcde"
    and h3: "1 \<le> columns menu_abcde" and h4: "selected menu_abcde = 0"
    and h5: "first menu_abcde = 0"
    by (simp_all add: menu_abcde_def)
  note t = pageDown_tour[OF h1 h2 h3 h4 h5]
  show ?thesis by (intro conjI h1 h2 h3 h4 h5 t)
qed

section \<open>The down key\<close>

lemma adjust_selected_selected_any:
  "selected (adjust_selected s) = min (len_options s - 1) (max 0 (selected s))"
proof -
  have "0 \<le> len_options s" by (simp add: len_options_def)
  then show ?thesis
    by (auto simp: adjust_selected_def Let_def window_update_items min_def max_def)
qed

lemma adjust_selected_window:
  "adjust_selected s
     = s\<lparr>selected := selected (adjust_selected s), first := first (adjust_selected s)\<rparr>"
  by (simp add: adjust_selected_def Let_def)

lemma on_down_post_state:
  "on_down m =
     m\<lparr>selected := min (len_options m - 1) (max 0 (selected m + 1)),
       first := min (max 0 (if selected m = first m + items_in_page m - 1
                            then first m + 1 else first m))
                    (len_options m - items_in_page m)\<rparr>"
proof -
  define f1 where
    "f1 = (if selected m = first m + items_in_page m - 1 then first m + 1 else first m)"
  define m1 where "m1 = m\<lparr>first := f1, selected := selected m + 1\<rparr>"
  have e: "on_down m = adjust_selected m1"
    by (simp add: on_down_def Let_def m1_def f1_def)
  have i: "items_in_page m1 = items_in_page m" "len_options m1 = len_options m"
    by (simp_all add: m1_def window_update_items)
  have s: "selected (adjust_selected m1) = min (len_options m - 1) (max 0 (selected m + 1))"
    by (simp add: adjust_selected_selected_any i) (simp add: m1_def)
  have f: "first (adjust_selected m1) = min (max 0 f1) (len_options m - items_in_page m)"
    by (simp add: adjust_selected_first i) (simp add: m1_def)
  have "adjust_selected m1
          = m1\<lparr>selected := min (len_options m - 1) (max 0 (selected m + 1)),
               first := min (max 0 f1) (len_options m - items_in_page m)\<rparr>"
    using adjust_selected_window[of m1] unfolding s f .
  also have "\<dots> = m\<lparr>selected := min (len_options m - 1) (max 0 (selected m + 1)),
                     first := min (max 0 f1) (len_options m - items_in_page m)\<rparr>"
    by (simp add: m1_def)
  finally show ?thesis unfolding e f1_def .
qed

lemma on_down_abcde_clamped:
  "on_down (menu_abcde\<lparr>title := ttl, selected := 3, first := 1\<rparr>)
     = menu_abcde\<lparr>title := ttl, selected := 4, first := 2\<rparr>"
  "on_down (menu_abcde\<lparr>title := ttl, selected := 4, first := 2\<rparr>)
     = menu_abcde\<lparr>title := ttl, selected := 4, first := 2\<rparr>"
  by (simp_all add: on_down_def adjust_selected_def items_in_page_def len_options_def
      menu_abcde_def Let_def)

lemma five_downs_abcde:
  "run_keys (menu_abcde\<lparr>title := ttl\<rparr>) [''down'', ''down'', ''down'', ''down'', ''down'']
     = Browsing (menu_abcde\<lparr>title := ttl, selected := 4, first := 2\<rparr>)"
  by (simp add: dispatch_long_key Menu_dispatch_nav on_down_abcde on_down_abcde_clamped truthy_def)

text \<open>
  C4. \<open>_on_down\<close> adds one to \<open>first\<close> exactly when \<open>selected\<close> equals
  \<open>first + itemsInPage - 1\<close>, adds one to \<open>selected\<close>, and then clamps: the state it
  leaves has \<open>selected\<close> clamped to \<open>[0, N - 1]\<close> and \<open>first\<close> clamped to
  \<open>[0, N - itemsInPage]\<close>, and nothing else changed. On any terminal of at least 2 columns
  and 5 rows, \<open>Menu(title, ["a","b","c","d","e"], None, 3, 1)\<close> starts with
  \<open>selected = 0\<close>, \<open>first = 0\<close> (height 3, one column); three times \<open>down\<close> leave
  \<open>first = 1\<close>, \<open>selected = 3\<close>, and \<open>enter\<close> after them finalizes with result "d".
  Two more \<open>down\<close> run into the clamp: the fifth would leave \<open>selected = 5\<close>,
  \<open>first = 3\<close>, and the clamp brings them back to \<open>selected = 4\<close>, \<open>first = 2\<close>.
\<close>

theorem down_rule_and_scenario:
  assumes "2 \<le> tw" and "5 \<le> th"
  shows "on_down m =
           m\<lparr>selected := min (len_options m - 1) (max 0 (selected m + 1)),
             first := min (max 0 (if selected m = first m + items_in_page m - 1
                                  then first m + 1 else first m))
                          (len_options m - items_in_page m)\<rparr> \<and>
         (\<exists>m0 m3 m4 m5.
            Menu_init (tw, th) ttl [''a'', ''b'', ''c'', ''d'', ''e''] None (Some 3) (Some 1) = Inr m0 \<and>
            selected m0 = 0 \<and> first m0 = 0 \<and> height m0 = 3 \<and> columns m0 = 1 \<and>
            run_keys m0 [''down'', ''down'', ''down''] = Browsing m3 \<and>
            first m3 = 1 \<and> selected m3 = 3 \<and>
            run_keys m0 [''down'', ''down'', ''down'', ''enter''] = Finalized m4 \<and>
            result m4 = ResStr ''d'' \<and>
            run_keys m0 [''down'', ''down'', ''down'', ''down'', ''down''] = Browsing m5 \<and>
            first m5 = 2 \<and> selected m5 = 4)"
proof
  show "on_down m =
           m\<lparr>selected := min (len_options m - 1) (max 0 (selected m + 1)),
             first := min (max 0 (if selected m = first m + items_in_page m - 1
                                  then first m + 1 else first m))
                          (len_options m - items_in_page m)\<rparr>"
    by (rule on_down_post_state)
next
  let ?m0 = "menu_abcde\<lparr>title := ttl\<rparr>"
  let ?m3 = "menu_abcde\<lparr>title := ttl, selected := 3, first := 1\<rparr>"
  let ?m4 = "menu_abcde\<lparr>title := ttl, selected := 3, first := 1, result := ResStr ''d''\<rparr>"
  let ?m5 = "menu_abcde\<lparr>title := ttl, selected := 4, first := 2\<rparr>"
  have i: "Menu_init (tw, th) ttl [''a'', ''b'', ''c'', ''d'', ''e''] None (Some 3) (Some 1) = Inr ?m0"
    by (rule Menu_init_abcde[OF assms])
  have s0: "selected ?m0 = 0 \<and> first ?m0 = 0 \<and> height ?m0 = 3 \<and> columns ?m0 = 1"
    by (simp add: menu_abcde_def)
  have r3: "run_keys ?m0 [''down'', ''down'', ''down''] = Browsing ?m3"
    by (rule three_downs_abcde)
  have s3: "first ?m3 = 1 \<and> selected ?m3 = 3" by simp
  have r4: "run_keys ?m0 [''down'', ''down'', ''down'', ''enter''] = Finalized ?m4"
    by (simp add: dispatch_long_key Menu_dispatch_nav on_down_abcde truthy_def
        Menu_dispatch_enter_esc enter_abcde)
  have s4: "result ?m4 = ResStr ''d''" by simp
  have r5: "run_keys ?m0 [''down'', ''down'', ''down'', ''down'', ''down''] = Browsing ?m5"
    by (rule five_downs_abcde)
  have s5: "first ?m5 = 2 \<and> selected ?m5 = 4" by simp
  show "\<exists>m0 m3 m4 m5.
            Menu_init (tw, th) ttl [''a'', ''b'', ''c'', ''d'', ''e''] None (Some 3) (Some 1) = Inr m0 \<and>
            selected m0 = 0 \<and> first m0 = 0 \<and> height m0 = 3 \<and> columns m0 = 1 \<and>
            run_keys m0 [''down'', ''down'', ''down''] = Browsing m3 \<and>
            first m3 = 1 \<and> selected m3 = 3 \<and>
            run_keys m0 [''down'', ''down'', ''down'', ''enter''] = Finalized m4 \<and>
            result m4 = ResStr ''d'' \<and>
            run_keys m0 [''down'', ''down'', ''down'', ''down'', ''down''] = Browsing m5 \<and>
            first m5 = 2 \<and> selected m5 = 4"
    using i s0 r3 s3 r4 s4 r5 s5 by blast
qed

theorem down_rule_and_scenario_witness:
  "(2::int) \<le> 80 \<and> (5::int) \<le> 24 \<and>
   on_down (menu_abcde\<lparr>selected := 4, first := 2\<rparr>) = menu_abcde\<lparr>selected := 4, first := 2\<rparr> \<and>
   on_down (menu_abcde\<lparr>selected := 2, first := 0\<rparr>) = menu_abcde\<lparr>selected := 3, first := 1\<rparr> \<and>
   (\<exists>m0 m3 m4 m5.
      Menu_init (80, 24) ''Pick'' [''a'', ''b'', ''c'', ''d'', ''e''] None (Some 3) (Some 1) = Inr m0 \<and>
      selected m0 = 0 \<and> first m0 = 0 \<and> height m0 = 3 \<and> columns m0 = 1 \<and>
      run_keys m0 [''down'', ''down'', ''down''] = Browsing m3 \<and>
      first m3 = 1 \<and> selected m3 = 3 \<and>
      run_keys m0 [''down'', ''down'', ''down'', ''enter''] = Finalized m4 \<and>
      result m4 = ResStr ''d'' \<and>
      run_keys m0 [''down'', ''down'', ''down'', ''down'', ''down''] = Browsing m5 \<and>
      first m5 = 2 \<and> selected m5 = 4)"
proof -
  have h1: "(2::int) \<le> 80" and h2: "(5::int) \<le> 24" by simp_all
  note t1 = down_rule_and_scenario[OF h1 h2, of "menu_abcde\<lparr>selected := 4, first := 2\<rparr>" "''Pick''"]
  note t2 = down_rule_and_scenario[OF h1 h2, of "menu_abcde\<lparr>selected := 2, first := 0\<rparr>" "''Pick''"]
  have a: "on_down (menu_abcde\<lparr>selected := 4, first := 2\<rparr>) = menu_abcde\<lparr>selected := 4, first := 2\<rparr>"
    using t1[THEN conjunct1] by (simp add: menu_abcde_def len_options_def items_in_page_def)
  have b: "on_down (menu_abcde\<lparr>selected := 2, first := 0\<rparr>) = menu_abcde\<lparr>selected := 3, first := 1\<rparr>"
    using t2[THEN conjunct1] by (simp add: menu_abcde_def len_options_def items_in_page_def)
  show ?thesis by (intro conjI h1 h2 a b t1[THEN conjunct2])
qed

section \<open>Cleaning up on every way out of \<open>show\<close>\<close>

subsection \<open>What the driver calls do to the rows\<close>

lemma run_ops_append: "run_ops (xs @ ys) s = run_ops ys (run_ops xs s)"
  by (simp add: run_ops_def)

lemma run_ops_Cons: "run_ops (x # xs) s = run_ops xs (apply_op x s)"
  by (simp add: run_ops_def)

lemma run_ops_Nil: "run_ops [] s = s"
  by (simp add: run_ops_def)

lemma touched_refl: "touched lo hi s s"
  by (simp add: touched_def)

lemma touched_trans: "touched lo hi s s' \<Longrightarrow> touched lo hi s' s'' \<Longrightarrow> touched lo hi s s''"
  by (simp add: touched_def)

lemma touched_widen: "touched lo hi s s' \<Longrightarrow> lo' \<le> lo \<Longrightarrow> hi \<le> hi' \<Longrightarrow> touched lo' hi' s s'"
  by (auto simp: touched_def)

lemma write_text_same_row:
  assumes "no_newline t"
  shows "cur_row (fold write_char t s) = cur_row s \<and>
         saved_row (fold write_char t s) = saved_row s \<and>
         touched (cur_row s) (cur_row s) s (fold write_char t s)"
  using assms
proof (induction t arbitrary: s)
  case Nil
  then show ?case by (simp add: touched_def)
next
  case (Cons c t)
  let ?s1 = "write_char c s"
  have c: "c \<noteq> CHR 0x0A" and t: "no_newline t" using Cons.prems by (auto simp: no_newline_def)
  have s1: "cur_row ?s1 = cur_row s" "saved_row ?s1 = saved_row s"
    "touched (cur_row s) (cur_row s) s ?s1"
    using c by (auto simp: write_char_def touched_def)
  from Cons.IH[OF t, of ?s1] s1 show ?case
    by (auto intro: touched_trans)
qed

lemma print_line_effect:
  assumes "no_newline (rich_text line)"
  defines "ops \<equiv> [Write line, ClearEol, Write [Plain [CHR 0x0A]]]"
  shows "cur_row (run_ops ops s) = cur_row s + 1 \<and>
         saved_row (run_ops ops s) = saved_row s \<and>
         touched (cur_row s) (cur_row s) s (run_ops ops s)"
proof -
  let ?s1 = "fold write_char (rich_text line) s"
  note w = write_text_same_row[OF assms(1), of s]
  have e: "run_ops ops s = apply_op (Write [Plain [CHR 0x0A]]) ?s1"
    by (simp add: ops_def run_ops_def)
  have n: "cur_row (run_ops ops s) = cur_row ?s1 + 1" "saved_row (run_ops ops s) = saved_row ?s1"
    "dirty (run_ops ops s) = dirty ?s1"
    unfolding e by (simp_all add: rich_text_def write_char_def)
  have "touched (cur_row s) (cur_row s) ?s1 (run_ops ops s)"
    by (simp add: touched_def n)
  with w have "touched (cur_row s) (cur_row s) s (run_ops ops s)" by (auto intro: touched_trans)
  then show ?thesis using w n by simp
qed

lemma no_newline_append: "no_newline (a @ b) \<longleftrightarrow> no_newline a \<and> no_newline b"
  by (auto simp: no_newline_def)

lemma rich_text_append: "rich_text (a @ b) = rich_text a @ rich_text b"
  by (simp add: rich_text_def)

lemma markers_no_newline:
  "no_newline (rich_text (build_left_marker m i))"
  "no_newline (rich_text (build_right_marker m i))"
  by (simp_all add: build_left_marker_def build_right_marker_def rich_text_def no_newline_def)

lemma is_multi_selected_ok:
  assumes "0 \<le> i"
  shows "\<exists>b. is_multi_selected m i = Inr b"
  using assms by (auto simp: is_multi_selected_def py_getitem_def len_options_def)

lemma colorize_item_ok:
  assumes "0 \<le> i"
  shows "\<exists>r. colorize_item m i item = Inr r \<and> rich_text r = item"
proof (cases "cls m")
  case MultiSelectMenu
  from is_multi_selected_ok[OF assms, of m] obtain b where "is_multi_selected m i = Inr b" by blast
  then show ?thesis using MultiSelectMenu
    by (simp add: colorize_item_def MultiSelectMixin_colorize_item_def rich_text_def)
qed (simp_all add: colorize_item_def Menu_colorize_item_def rich_text_def)

lemma build_menu_item_ok:
  assumes "0 \<le> i" "no_newline opt"
  shows "\<exists>r. build_menu_item m i opt = Inr r \<and> no_newline (rich_text r)"
proof -
  let ?item = "opt @ replicate (nat (width m - int (length opt))) CHR '' ''"
  from colorize_item_ok[OF assms(1), of m ?item] obtain c where
    c: "colorize_item m i ?item = Inr c" and t: "rich_text c = ?item" by blast
  have "no_newline ?item" using assms(2) by (auto simp: no_newline_def)
  then have "no_newline (rich_text (build_left_marker m i @ c @ build_right_marker m i))"
    using t by (simp add: rich_text_append no_newline_append markers_no_newline)
  then show ?thesis using c by (simp add: build_menu_item_def Let_def)
qed

lemma join_spans_no_newline:
  assumes "\<forall>r\<in>set items. no_newline (rich_text r)"
  shows "no_newline (rich_text (join_spans items))"
  using assms
proof (induction items rule: join_spans.induct)
  case 1
  then show ?case by (simp add: rich_text_def no_newline_def)
next
  case (2 x)
  then show ?case by simp
next
  case (3 x y ys)
  then have "no_newline (rich_text x)" "no_newline (rich_text (join_spans (y # ys)))" by simp_all
  then show ?case by (simp add: rich_text_def no_newline_def)
qed

lemma build_items_ok:
  assumes "0 \<le> first m" "list_all no_newline page" "\<forall>i\<in>set idxs. 0 \<le> i"
  shows "\<exists>items. build_items m page idxs = Inr items \<and> (\<forall>r\<in>set items. no_newline (rich_text r))"
  using assms(3)
proof (induction idxs)
  case Nil
  then show ?case by simp
next
  case (Cons i idxs)
  from Cons obtain items where
    r: "build_items m page idxs = Inr items" and n: "\<forall>r\<in>set items. no_newline (rich_text r)"
    by auto
  show ?case
  proof (cases "i < int (length page)")
    case False
    then show ?thesis using r n by simp
  next
    case True
    have i0: "0 \<le> i" using Cons.prems by simp
    then have g: "py_getitem page i = Inr (page ! nat i)" using True by (simp add: py_getitem_def)
    have "page ! nat i \<in> set page" using True i0 by simp
    then have "no_newline (page ! nat i)" using assms(2) by (simp add: list_all_iff)
    moreover have "0 \<le> first m + i" using assms(1) i0 by simp
    ultimately obtain it where
      b: "build_menu_item m (first m + i) (page ! nat i) = Inr it" and
      bn: "no_newline (rich_text it)"
      using build_menu_item_ok by blast
    show ?thesis using True g b bn r n by simp
  qed
qed

lemma py_range_nonneg:
  assumes "0 \<le> a" "1 \<le> step"
  shows "\<forall>i\<in>set (py_range a b step). 0 \<le> i"
  using assms by (auto simp: py_range_def)

lemma print_rows_effect:
  assumes "0 \<le> first m" "1 \<le> height m" "list_all no_newline page" "\<forall>r\<in>set rows. 0 \<le> r"
  shows "\<exists>ops. print_rows m page rows = (ops, None) \<and>
           cur_row (run_ops ops s) = cur_row s + int (length rows) \<and>
           saved_row (run_ops ops s) = saved_row s \<and>
           touched (cur_row s) (cur_row s + int (length rows) - 1) s (run_ops ops s)"
  using assms(4)
proof (induction rows arbitrary: s)
  case Nil
  then show ?case by (simp add: run_ops_Nil touched_refl)
next
  case (Cons r rows)
  have r0: "0 \<le> r" using Cons.prems by simp
  from build_items_ok[OF assms(1,3) py_range_nonneg[OF r0 assms(2)]] obtain items where
    b: "build_items m page (py_range r (r + int (length page)) (height m)) = Inr items" and
    n: "\<forall>x\<in>set items. no_newline (rich_text x)" by blast
  let ?line = "[Write (join_spans items), ClearEol, Write [Plain [CHR 0x0A]]]"
  let ?s1 = "run_ops ?line s"
  note l = print_line_effect[OF join_spans_no_newline[OF n], of s]
  have "\<forall>r\<in>set rows. 0 \<le> r" using Cons.prems by simp
  from Cons.IH[OF this, of ?s1] obtain ops where
    p: "print_rows m page rows = (ops, None)" and
    c: "cur_row (run_ops ops ?s1) = cur_row ?s1 + int (length rows)" and
    sv: "saved_row (run_ops ops ?s1) = saved_row ?s1" and
    t: "touched (cur_row ?s1) (cur_row ?s1 + int (length rows) - 1) ?s1 (run_ops ops ?s1)"
    by blast
  have e: "print_rows m page (r # rows) = (?line @ ops, None)" using b p by simp
  have ra: "run_ops (?line @ ops) s = run_ops ops ?s1" by (simp only: run_ops_append)
  have t1: "touched (cur_row s) (cur_row s + int (length (r # rows)) - 1) s ?s1"
    using l by (auto intro: touched_widen)
  have t2: "touched (cur_row s) (cur_row s + int (length (r # rows)) - 1) ?s1 (run_ops ops ?s1)"
    using t l by (auto intro: touched_widen)
  have "cur_row (run_ops ops ?s1) = cur_row s + int (length (r # rows))" using c l by simp
  moreover have "saved_row (run_ops ops ?s1) = saved_row s" using sv l by simp
  ultimately show ?case using e touched_trans[OF t1 t2] unfolding ra[symmetric] by blast
qed

subsection \<open>\<open>_print_menu\<close> stays on its lines, \<open>_clear_menu\<close> empties them\<close>

lemma py_slice_subset: "set (py_slice xs a b) \<subseteq> set xs"
proof -
  have "set (take k (drop j xs)) \<subseteq> set xs" for k j
    using set_take_subset[of k "drop j xs"] set_drop_subset[of j xs] by blast
  then show ?thesis by (simp add: py_slice_def Let_def)
qed

lemma Menu_print_menu_effect:
  assumes "0 \<le> first m" "1 \<le> height m" "list_all no_newline (options m)"
  shows "\<exists>ops. Menu_print_menu m = (ops, None) \<and>
           cur_row (run_ops ops s) = cur_row s + height m \<and>
           saved_row (run_ops ops s) = saved_row s \<and>
           touched (cur_row s) (cur_row s + height m - 1) s (run_ops ops s)"
proof -
  let ?page = "py_slice (options m) (first m) (first m + height m * columns m)"
  let ?rows = "map int [0 ..< nat (height m)]"
  have pg: "list_all no_newline ?page"
    using assms(3) py_slice_subset[of "options m"] by (auto simp: list_all_iff)
  have rw: "\<forall>r\<in>set ?rows. 0 \<le> r" by simp
  have len: "int (length ?rows) = height m" using assms(2) by simp
  from print_rows_effect[OF assms(1,2) pg rw, of s] show ?thesis
    unfolding Menu_print_menu_def len by simp
qed

lemma clear_lines_effect:
  "cur_row (run_ops (concat (replicate n [ClearLine, Down 1])) s) = cur_row s + int n \<and>
   saved_row (run_ops (concat (replicate n [ClearLine, Down 1])) s) = saved_row s \<and>
   dirty (run_ops (concat (replicate n [ClearLine, Down 1])) s)
     = dirty s - {cur_row s ..< cur_row s + int n}"
proof (induction n arbitrary: s)
  case 0
  show ?case by (simp add: run_ops_Nil)
next
  case (Suc n)
  let ?s1 = "apply_op (Down 1) (apply_op ClearLine s)"
  have e: "run_ops (concat (replicate (Suc n) [ClearLine, Down 1])) s
             = run_ops (concat (replicate n [ClearLine, Down 1])) ?s1"
    by (simp add: run_ops_def)
  have s1: "cur_row ?s1 = cur_row s + 1" "saved_row ?s1 = saved_row s"
    "dirty ?s1 = dirty s - {cur_row s}" by simp_all
  have "dirty s - {cur_row s} - {cur_row s + 1 ..< cur_row s + 1 + int n}
          = dirty s - {cur_row s ..< cur_row s + int (Suc n)}" by auto
  then show ?case using Suc.IH[of ?s1] unfolding e s1 by simp
qed

lemma SearchMixin_print_menu_effect:
  assumes "0 \<le> first m" "1 \<le> height m" "list_all no_newline (options m)"
    "no_newline (searchText m)"
  shows "\<exists>ops. SearchMixin_print_menu m = (ops, None) \<and>
           cur_row (run_ops ops s) = cur_row s + height m \<and>
           saved_row (run_ops ops s) = saved_row s \<and>
           touched (cur_row s) (cur_row s + height m) s (run_ops ops s)"
proof -
  define tail where
    "tail = [ClearLine] @ (if searchMode m then [Write [Plain (CHR ''/'' # searchText m)]] else [])"
  have tail_eff: "cur_row (run_ops tail t) = cur_row t \<and> saved_row (run_ops tail t) = saved_row t \<and>
                  touched (cur_row t) (cur_row t) t (run_ops tail t)" for t
  proof -
    let ?t1 = "apply_op ClearLine t"
    have a: "cur_row ?t1 = cur_row t" "saved_row ?t1 = saved_row t"
      "touched (cur_row t) (cur_row t) t ?t1" by (simp_all add: touched_def)
    show ?thesis
    proof (cases "searchMode m")
      case False
      then have "run_ops tail t = ?t1" by (simp add: tail_def run_ops_def)
      then show ?thesis using a by simp
    next
      case True
      have nn: "no_newline (CHR ''/'' # searchText m)" using assms(4) by (simp add: no_newline_def)
      have e: "run_ops tail t = fold write_char (CHR ''/'' # searchText m) ?t1"
        using True by (simp add: tail_def run_ops_def rich_text_def)
      from write_text_same_row[OF nn, of ?t1] a show ?thesis
        unfolding e by (auto intro: touched_trans)
    qed
  qed
  obtain body where
    b: "(if options m \<noteq> [] then Menu_print_menu m
         else (concat (replicate (nat (height m)) [ClearLine, Down 1]), None)) = (body, None)" and
    bc: "cur_row (run_ops body s) = cur_row s + height m" and
    bs: "saved_row (run_ops body s) = saved_row s" and
    bt: "touched (cur_row s) (cur_row s + height m - 1) s (run_ops body s)"
  proof (cases "options m = []")
    case False
    from Menu_print_menu_effect[OF assms(1,2,3), of s] obtain ops where
      "Menu_print_menu m = (ops, None)" "cur_row (run_ops ops s) = cur_row s + height m"
      "saved_row (run_ops ops s) = saved_row s"
      "touched (cur_row s) (cur_row s + height m - 1) s (run_ops ops s)" by blast
    then show ?thesis using that[of ops] False by simp
  next
    case True
    let ?ops = "concat (replicate (nat (height m)) [ClearLine, Down 1])"
    note c = clear_lines_effect[of "nat (height m)" s]
    have h: "int (nat (height m)) = height m" using assms(2) by simp
    have "touched (cur_row s) (cur_row s + height m - 1) s (run_ops ?ops s)"
      using c unfolding h by (auto simp: touched_def)
    then show ?thesis using that[of ?ops] True c unfolding h by simp
  qed
  let ?s1 = "run_ops body s"
  have e: "SearchMixin_print_menu m = (body @ tail, None)"
    using b by (simp add: SearchMixin_print_menu_def tail_def)
  have r: "run_ops (body @ tail) s = run_ops tail ?s1" by (simp only: run_ops_append)
  note te = tail_eff[of ?s1]
  have t1: "touched (cur_row s) (cur_row s + height m) s ?s1"
    using bt by (auto intro: touched_widen)
  have t2: "touched (cur_row s) (cur_row s + height m) ?s1 (run_ops tail ?s1)"
    using te bc assms(2) by (auto intro: touched_widen)
  have "cur_row (run_ops tail ?s1) = cur_row s + height m" using te bc by simp
  moreover have "saved_row (run_ops tail ?s1) = saved_row s" using te bs by simp
  ultimately show ?thesis using e touched_trans[OF t1 t2] unfolding r[symmetric] by blast
qed

lemma print_menu_effect:
  assumes "renderable m"
  shows "\<exists>ops. print_menu m = (ops, None) \<and>
           cur_row (run_ops ops s) = cur_row s + height m \<and>
           saved_row (run_ops ops s) = saved_row s \<and>
           touched (cur_row s) (cur_row s + height m) s (run_ops ops s)"
proof -
  have a: "0 \<le> first m" "1 \<le> height m" "list_all no_newline (options m)"
    "no_newline (searchText m)"
    using assms by (simp_all add: renderable_def text_ok_def)
  show ?thesis
  proof (cases "cls m")
    case PlainMenu
    from Menu_print_menu_effect[OF a(1,2,3), of s] obtain ops where
      o: "Menu_print_menu m = (ops, None)" "cur_row (run_ops ops s) = cur_row s + height m"
      "saved_row (run_ops ops s) = saved_row s"
      "touched (cur_row s) (cur_row s + height m - 1) s (run_ops ops s)" by blast
    have "touched (cur_row s) (cur_row s + height m) s (run_ops ops s)"
      using o(4) by (auto intro: touched_widen)
    then show ?thesis using o PlainMenu by (simp add: print_menu_def)
  next
    case SearchMenu
    then show ?thesis using SearchMixin_print_menu_effect[OF a, of s] by (simp add: print_menu_def)
  next
    case MultiSelectMenu
    then show ?thesis using SearchMixin_print_menu_effect[OF a, of s] by (simp add: print_menu_def)
  qed
qed

lemma clear_menu_effect:
  assumes "1 \<le> height m"
  shows "dirty (run_ops (clear_menu m) s) = dirty s - {saved_row s - menu_lines m .. saved_row s} \<and>
         saved_row (run_ops (clear_menu m) s) = saved_row s"
proof -
  define L where "L = menu_lines m"
  have L1: "1 \<le> L" using assms by (simp add: L_def menu_lines_def)
  let ?s1 = "apply_op (Up L) (apply_op RestorePosition s)"
  let ?mid = "concat (replicate (nat L) [ClearLine, Down 1])"
  let ?s2 = "run_ops ?mid ?s1"
  have cm: "clear_menu m = [RestorePosition, Up L] @ ?mid @ [ClearLine, Up L]"
    by (simp add: clear_menu_def L_def menu_lines_def Let_def)
  have e: "run_ops (clear_menu m) s = apply_op (Up L) (apply_op ClearLine ?s2)"
    unfolding cm by (simp add: run_ops_def)
  have s1: "cur_row ?s1 = saved_row s - L" "saved_row ?s1 = saved_row s" "dirty ?s1 = dirty s"
    by simp_all
  have nl: "int (nat L) = L" using L1 by simp
  note c = clear_lines_effect[of "nat L" ?s1, unfolded nl s1]
  have "dirty s - {saved_row s - L ..< saved_row s - L + L} - {saved_row s}
          = dirty s - {saved_row s - L .. saved_row s}" using L1 by auto
  then show ?thesis using c unfolding e L_def[symmetric] by simp
qed

subsection \<open>The key handlers keep the height, the title and the texts\<close>

lemma adjust_selected_kept:
  assumes "text_ok m0" "height m0 = height m" "title m0 = title m"
  shows "kept m (adjust_selected m0)"
proof -
  have t: "text_ok (adjust_selected m0)" "height (adjust_selected m0) = height m0"
    "title (adjust_selected m0) = title m0"
    using assms(1) by (simp_all add: adjust_selected_def Let_def text_ok_def)
  have "items_in_page m0 \<le> len_options m0" by (simp add: items_in_page_def)
  then have "0 \<le> first (adjust_selected m0)" by (simp add: adjust_selected_first)
  then show ?thesis using t assms(2,3) by (simp add: kept_def renderable_def)
qed

lemma nav_handlers_kept:
  assumes "text_ok m"
  shows "kept m (on_down m)" "kept m (on_up m)" "kept m (on_right m)" "kept m (on_left m)"
    "kept m (on_pageDown m)" "kept m (on_pageUp m)" "kept m (on_home m)" "kept m (on_end m)"
  unfolding on_down_def on_up_def on_right_def on_left_def on_pageDown_def on_pageUp_def
    on_home_def on_end_def Let_def
  using assms by (auto intro!: adjust_selected_kept simp: text_ok_def)

lemma refilter_kept:
  assumes "text_ok m"
  shows "kept m (refilter m)"
proof -
  have "set (map snd (filter P (zip is (allOptions m)))) \<subseteq> set (allOptions m)" for P and "is" :: "int list"
    by (auto dest: set_zip_rightD)
  then have "list_all no_newline (map snd (filter P (zip is (allOptions m))))" for P and "is" :: "int list"
    using assms unfolding text_ok_def list_all_iff by blast
  then show ?thesis using assms
    by (simp add: kept_def renderable_def text_ok_def refilter_def Let_def)
qed

lemma kept_update:
  assumes "text_ok m0" "height m0 = height m" "title m0 = title m" "kept m0 m'"
  shows "kept m m'"
  using assms by (simp add: kept_def)

lemma enter_kept:
  assumes "renderable m" "on_enter m = Inr (r, m')"
  shows "kept m m'"
  using assms
  by (cases "cls m")
     (auto simp: on_enter_def Menu_on_enter_def MultiSelectMixin_on_enter_def kept_def
        renderable_def text_ok_def Let_def split: sum.splits if_splits)

lemma esc_kept:
  assumes "renderable m" "on_esc m = (r, m')"
  shows "kept m m'"
proof -
  have t: "text_ok m" using assms(1) by (simp add: renderable_def)
  have base: "kept m (m\<lparr>result := x\<rparr>)" for x
    using assms(1) by (simp add: kept_def renderable_def text_ok_def)
  have stop: "kept m (stop_search (m\<lparr>result := x\<rparr>))" "kept m (stop_search m)" for x
  proof -
    have a: "text_ok (m\<lparr>result := x, searchMode := False\<rparr>)" "text_ok (m\<lparr>searchMode := False\<rparr>)"
      using t by (simp_all add: text_ok_def)
    show "kept m (stop_search (m\<lparr>result := x\<rparr>))"
      using refilter_kept[OF a(1)] base[of x] by (simp add: stop_search_def kept_def)
    show "kept m (stop_search m)"
      using refilter_kept[OF a(2)] assms(1) by (simp add: stop_search_def kept_def)
  qed
  show ?thesis using assms(2) base stop
    by (cases "cls m")
       (auto simp: on_esc_def Menu_on_esc_def SearchMixin_on_esc_def MultiSelectMixin_on_esc_def
          split: if_splits)
qed

lemma backspace_kept:
  assumes "renderable m"
  shows "kept m (on_backspace m)"
proof (cases "searchMode m \<and> searchText m \<noteq> []")
  case False
  then show ?thesis using assms by (auto simp: on_backspace_def kept_def)
next
  case True
  have "set (butlast (searchText m)) \<subseteq> set (searchText m)" by (auto dest: in_set_butlastD)
  then have "text_ok (m\<lparr>searchText := butlast (searchText m)\<rparr>)"
    using assms by (auto simp: renderable_def text_ok_def no_newline_def)
  from refilter_kept[OF this] show ?thesis using True by (simp add: on_backspace_def kept_def)
qed

lemma space_kept:
  assumes "renderable m" "on_space m = Inr (r, m')"
  shows "kept m m'"
proof -
  have t: "text_ok (m\<lparr>selectedItems := S\<rparr>)" for S
    using assms(1) by (simp add: renderable_def text_ok_def)
  have "kept m (on_down (m\<lparr>selectedItems := S\<rparr>))" for S
    using nav_handlers_kept(1)[OF t[of S]] by (simp add: kept_def)
  then show ?thesis using assms(2)
    by (auto simp: on_space_def Let_def split: sum.splits if_splits)
qed

lemma typing_kept:
  assumes "renderable m" "printable_key key"
  shows "kept m (refilter ((start_search m)\<lparr>searchText := searchText (start_search m) @ key\<rparr>))"
proof -
  from assms(2) obtain c where k: "key = [c]" and c: "(32::nat) < of_char c"
    by (auto simp: printable_key_def split: list.splits)
  have "of_char (CHR 0x0A) = (10::nat)" by simp
  then have "c \<noteq> CHR 0x0A" using c by auto
  then have nk: "no_newline key" using k by (simp add: no_newline_def)
  let ?m1 = "(start_search m)\<lparr>searchText := searchText (start_search m) @ key\<rparr>"
  have "text_ok ?m1" "height ?m1 = height m" "title ?m1 = title m"
    using assms(1) nk
    by (auto simp: renderable_def text_ok_def start_search_def no_newline_def)
  from refilter_kept[OF this(1)] this(2,3) show ?thesis by (simp add: kept_def)
qed

lemma Menu_dispatch_kept:
  assumes "renderable m" "Menu_dispatch_key m k = Inr (r, m')"
  shows "kept m m'"
proof -
  have t: "text_ok m" using assms(1) by (simp add: renderable_def)
  have same: "kept m m" using assms(1) by (simp add: kept_def)
  note nav = nav_handlers_kept[OF t]
  show ?thesis
    using assms(2) nav same enter_kept[OF assms(1)] esc_kept[OF assms(1)]
      backspace_kept[OF assms(1)] space_kept[OF assms(1)]
    unfolding Menu_dispatch_key_def
    by (auto split: if_splits)
qed

lemma dispatch_kept:
  assumes "renderable m" "dispatch_key m k = Inr (r, m')"
  shows "kept m m'"
proof (cases "cls m")
  case PlainMenu
  then show ?thesis using assms Menu_dispatch_kept by (simp add: dispatch_key_def)
next
  case SearchMenu
  then have "SearchMixin_dispatch_key m k = Inr (r, m')" using assms(2) by (simp add: dispatch_key_def)
  then show ?thesis using assms(1) Menu_dispatch_kept typing_kept
    by (auto simp: SearchMixin_dispatch_key_def Let_def split: if_splits)
next
  case MultiSelectMenu
  then have "SearchMixin_dispatch_key m k = Inr (r, m')" using assms(2) by (simp add: dispatch_key_def)
  then show ?thesis using assms(1) Menu_dispatch_kept typing_kept
    by (auto simp: SearchMixin_dispatch_key_def Let_def split: if_splits)
qed

subsection \<open>The loop and the cleanup\<close>

lemma touched_same_dirty: "dirty s' = dirty s \<Longrightarrow> touched lo hi s s'"
  by (simp add: touched_def)

lemma touched_diff:
  assumes "touched lo hi s s'"
  shows "dirty s' - {lo .. hi} = dirty s - {lo .. hi}"
  using assms by (auto simp: touched_def)

lemma dispatch_key_ops_effect:
  "cur_row (run_ops (dispatch_key_ops m k) s) = cur_row s \<and>
   saved_row (run_ops (dispatch_key_ops m k) s) = saved_row s \<and>
   dirty (run_ops (dispatch_key_ops m k) s) = dirty s"
  by (simp add: dispatch_key_ops_def start_search_ops_def stop_search_ops_def run_ops_def
           split: menu_class.splits)

lemma show_loop_effect:
  assumes "renderable m" "saved_row s = a"
  shows "\<exists>t out mf. show_loop m ks e = (t, out, mf) \<and>
           saved_row (run_ops t s) = a \<and> touched (a - height m) a s (run_ops t s) \<and>
           height mf = height m \<and> title mf = title m \<and>
           out = show_return (run_keys m ks) e"
  using assms
proof (induction ks arbitrary: m s)
  case Nil
  then show ?case by (simp add: run_ops_Nil touched_refl show_return_def)
next
  case (Cons k ks)
  let ?k = "dispatch_key_ops m k"
  let ?s0 = "run_ops ?k s"
  note k0 = dispatch_key_ops_effect[of m k s]
  have s0: "saved_row ?s0 = a" using k0 Cons.prems(2) by simp
  have t00: "touched (a - height m) a s ?s0" using k0 by (simp add: touched_same_dirty)
  show ?case
  proof (cases "dispatch_key m k")
    case (Inl err)
    then show ?thesis using s0 t00 by (simp add: show_return_def)
  next
    case (Inr p)
    obtain r m' where p: "p = (r, m')" by (cases p)
    have d: "dispatch_key m k = Inr (r, m')" using Inr p by simp
    from dispatch_kept[OF Cons.prems(1) d] have
      rm: "renderable m'" and hm: "height m' = height m" and tm: "title m' = title m"
      by (simp_all add: kept_def)
    show ?thesis
    proof (cases "truthy r")
      case True
      then show ?thesis using d s0 t00 hm tm by (simp add: show_return_def)
    next
      case False
      let ?s1 = "run_ops [RestorePosition, Up (height m')] ?s0"
      have s1: "cur_row ?s1 = a - height m" "saved_row ?s1 = a" "dirty ?s1 = dirty ?s0"
        using s0 hm by (simp_all add: run_ops_def)
      from print_menu_effect[OF rm, of ?s1] obtain ops where
        pm: "print_menu m' = (ops, None)" and
        pc: "cur_row (run_ops ops ?s1) = cur_row ?s1 + height m'" and
        ps: "saved_row (run_ops ops ?s1) = saved_row ?s1" and
        pt: "touched (cur_row ?s1) (cur_row ?s1 + height m') ?s1 (run_ops ops ?s1)" by blast
      let ?s2 = "run_ops ops ?s1"
      have s2: "saved_row ?s2 = a" using ps s1 by simp
      from Cons.IH[OF rm s2] obtain t out mf where
        l: "show_loop m' ks e = (t, out, mf)" and
        ls: "saved_row (run_ops t ?s2) = a" and
        lt: "touched (a - height m') a ?s2 (run_ops t ?s2)" and
        lh: "height mf = height m'" "title mf = title m'" and
        lo: "out = show_return (run_keys m' ks) e" by blast
      let ?T = "?k @ [RestorePosition, Up (height m')] @ ops @ t"
      have e1: "show_loop m (k # ks) e = (?T, out, mf)"
        using d False pm l by simp
      have e2: "run_ops ?T s = run_ops t ?s2"
        by (simp only: run_ops_append)
      have t0: "touched (a - height m) a ?s0 ?s1" using s1(3) by (rule touched_same_dirty)
      have t1: "touched (a - height m) a ?s1 ?s2" using pt s1(1) hm by simp
      have t2: "touched (a - height m) a ?s2 (run_ops t ?s2)" using lt hm by simp
      have tt: "touched (a - height m) a s (run_ops ?T s)"
        unfolding e2 using touched_trans[OF touched_trans[OF touched_trans[OF t00 t0] t1] t2] .
      have ss: "saved_row (run_ops ?T s) = a" unfolding e2 by (rule ls)
      have ro: "run_keys m (k # ks) = run_keys m' ks" using d False by simp
      have oo: "out = show_return (run_keys m (k # ks)) e" unfolding ro by (rule lo)
      have hh: "height mf = height m" "title mf = title m" using lh hm tm by simp_all
      show ?thesis using e1 ss tt hh oo by blast
    qed
  qed
qed

text \<open>
  C8. Once the loop of \<open>show\<close> is entered, every way out of it - enter or esc
  finalizing, the key events running out, an exception of the key-event source, an
  exception of a key handler - ends with the driver calls of \<open>_clear_menu\<close> followed by
  \<open>ansi.show_cursor()\<close>, for the height and title the menu was shown with. For a menu
  of at least one line whose title, options and query hold no line break, these calls
  leave no text on any row from the one where \<open>show\<close> started down to the row under
  the menu (the title line when there is a title, the menu lines, the search line), they
  leave every other row as it was, and the cursor is shown. What \<open>show\<close> returns or
  raises is decided by the run of keys alone.
\<close>

theorem show_always_cleans_up:
  assumes "renderable m"
  shows "(\<exists>body mf. fst (Menu_show m keys e) = body @ clear_menu mf @ [ShowCursor] \<and>
            height mf = height m \<and> title mf = title m) \<and>
         dirty (run_ops (fst (Menu_show m keys e)) s)
           = dirty s - {cur_row s .. cur_row s + menu_lines m} \<and>
         cursor_shown (run_ops (fst (Menu_show m keys e)) s) \<and>
         snd (Menu_show m keys e) = show_return (run_keys m keys) e"
proof -
  define pre where
    "pre = (if title m \<noteq> []
            then [Write [Colorize (title m) ''white'' None True, Plain [CHR 0x0A]]] else [])"
  define L where "L = menu_lines m"
  define r0 where "r0 = cur_row s"
  have h1: "1 \<le> height m" and nt: "no_newline (title m)"
    using assms by (simp_all add: renderable_def text_ok_def)
  let ?sa = "run_ops pre s"
  have sa: "cur_row ?sa = r0 + L - height m \<and> touched r0 (r0 + L) s ?sa"
  proof (cases "title m = []")
    case True
    then show ?thesis using h1 by (simp add: pre_def L_def r0_def menu_lines_def run_ops_Nil touched_refl)
  next
    case False
    let ?w = "fold write_char (title m) s"
    note w = write_text_same_row[OF nt, of s]
    have e: "?sa = write_char (CHR 0x0A) ?w"
      using False by (simp add: pre_def run_ops_def rich_text_def)
    have "cur_row ?sa = cur_row ?w + 1" "dirty ?sa = dirty ?w"
      unfolding e by (simp_all add: write_char_def)
    then have "cur_row ?sa = r0 + 1" "touched r0 r0 s ?sa"
      using w by (simp_all add: r0_def touched_def)
    then show ?thesis using False h1
      by (auto simp: L_def menu_lines_def intro: touched_widen)
  qed
  from print_menu_effect[OF assms, of ?sa] obtain ops where
    pm: "print_menu m = (ops, None)" and
    pc: "cur_row (run_ops ops ?sa) = cur_row ?sa + height m" and
    pt: "touched (cur_row ?sa) (cur_row ?sa + height m) ?sa (run_ops ops ?sa)" by blast
  let ?sb = "run_ops ops ?sa"
  have Lh: "height m \<le> L" by (simp add: L_def menu_lines_def)
  have sb: "cur_row ?sb = r0 + L" using pc sa by simp
  have tb: "touched r0 (r0 + L) s ?sb"
  proof -
    have "touched r0 (r0 + L) ?sa ?sb" using pt sa Lh by (auto intro: touched_widen)
    then show ?thesis using sa touched_trans by blast
  qed
  let ?sc = "run_ops [SavePosition, HideCursor] ?sb"
  have sc: "saved_row ?sc = r0 + L" "dirty ?sc = dirty ?sb"
    using sb by (simp_all add: run_ops_def)
  from show_loop_effect[OF assms sc(1), of keys e] obtain t out mf where
    l: "show_loop m keys e = (t, out, mf)" and
    ls: "saved_row (run_ops t ?sc) = r0 + L" and
    lt: "touched (r0 + L - height m) (r0 + L) ?sc (run_ops t ?sc)" and
    lh: "height mf = height m" "title mf = title m" and
    lo: "out = show_return (run_keys m keys) e" by blast
  let ?sd = "run_ops t ?sc"
  have td: "touched r0 (r0 + L) s ?sd"
  proof -
    have "touched r0 (r0 + L) ?sb ?sc" using sc(2) by (rule touched_same_dirty)
    moreover have "touched r0 (r0 + L) ?sc ?sd" using lt Lh by (auto intro: touched_widen)
    ultimately show ?thesis using tb touched_trans by blast
  qed
  have Lf: "menu_lines mf = L" using lh by (simp add: L_def menu_lines_def)
  have hf: "1 \<le> height mf" using lh h1 by simp
  let ?se = "run_ops (clear_menu mf) ?sd"
  have se: "dirty ?se = dirty s - {r0 .. r0 + L}"
    using clear_menu_effect[OF hf, of ?sd] touched_diff[OF td] unfolding Lf ls by simp
  have tr: "Menu_show m keys e
              = (pre @ ops @ [SavePosition, HideCursor] @ t @ clear_menu mf @ [ShowCursor], out)"
    using pm l by (simp add: Menu_show_def pre_def Let_def)
  have run: "run_ops (pre @ ops @ [SavePosition, HideCursor] @ t @ clear_menu mf @ [ShowCursor]) s
               = apply_op ShowCursor ?se"
    by (simp add: run_ops_def)
  have a: "\<exists>body mf'. fst (Menu_show m keys e) = body @ clear_menu mf' @ [ShowCursor] \<and>
            height mf' = height m \<and> title mf' = title m"
  proof -
    have "fst (Menu_show m keys e)
            = (pre @ ops @ [SavePosition, HideCursor] @ t) @ clear_menu mf @ [ShowCursor]"
      unfolding tr by simp
    then show ?thesis using lh by blast
  qed
  have b: "dirty (run_ops (fst (Menu_show m keys e)) s) = dirty s - {cur_row s .. cur_row s + menu_lines m}"
    unfolding tr fst_conv run using se by (simp add: r0_def L_def)
  have c: "cursor_shown (run_ops (fst (Menu_show m keys e)) s)"
    unfolding tr fst_conv run by simp
  have d: "snd (Menu_show m keys e) = show_return (run_keys m keys) e"
    unfolding tr using lo by simp
  show ?thesis using a b c d by (intro conjI)
qed

theorem show_always_cleans_up_witness:
  "renderable menu_fruit \<and>
   (\<exists>body mf. fst (Menu_show menu_fruit [''q''] SourceRaises)
        = body @ clear_menu mf @ [ShowCursor] \<and> height mf = 4 \<and> title mf = ''Pick'') \<and>
   dirty (run_ops (fst (Menu_show menu_fruit [''q''] SourceRaises)) screen_10) = {3} \<and>
   cursor_shown (run_ops (fst (Menu_show menu_fruit [''q''] SourceRaises)) screen_10) \<and>
   snd (Menu_show menu_fruit [''q''] SourceRaises) = Inl KeyboardFailure \<and>
   dirty (run_ops (fst (Menu_show menu_fruit [''q'', ''enter''] StreamEnds)) screen_10) = {3} \<and>
   cursor_shown (run_ops (fst (Menu_show menu_fruit [''q'', ''enter''] StreamEnds)) screen_10) \<and>
   snd (Menu_show menu_fruit [''q'', ''enter''] StreamEnds) = Inl IndexError"
proof -
  have h: "renderable menu_fruit"
    by (simp add: renderable_def text_ok_def no_newline_def menu_fruit_def)
  have hm: "height menu_fruit = 4" "title menu_fruit = ''Pick''"
    by (simp_all add: menu_fruit_def)
  have d0: "dirty screen_10 - {cur_row screen_10 .. cur_row screen_10 + menu_lines menu_fruit} = {3}"
    by (auto simp: screen_10_def menu_lines_def menu_fruit_def)
  have r1: "run_keys menu_fruit [''q''] = Browsing menu_fruit_q"
    by (simp add: dispatch_q_fruit truthy_def)
  have e1: "dispatch_key menu_fruit_q ''enter'' = Inl IndexError"
    by (simp add: dispatch_enter on_enter_def Menu_on_enter_def py_getitem_empty
          menu_fruit_q_def menu_fruit_def)
  have r2: "run_keys menu_fruit [''q'', ''enter''] = Raised IndexError"
    by (simp add: dispatch_q_fruit truthy_def e1)
  have s1: "show_return (Browsing menu_fruit_q) SourceRaises = Inl KeyboardFailure"
    by (simp add: show_return_def)
  have s2: "show_return (Raised IndexError) StreamEnds = Inl IndexError"
    by (simp add: show_return_def)
  note t1 = show_always_cleans_up[OF h, of "[''q'']" SourceRaises screen_10,
              unfolded hm d0 r1 s1]
  note t2 = show_always_cleans_up[OF h, of "[''q'', ''enter'']" StreamEnds screen_10,
              unfolded hm d0 r2 s2]
  show ?thesis
    by (intro conjI h t1[THEN conjunct1] t1[THEN conjunct2, THEN conjunct1]
          t1[THEN conjunct2, THEN conjunct2, THEN conjunct1]
          t1[THEN conjunct2, THEN conjunct2, THEN conjunct2]
          t2[THEN conjunct2, THEN conjunct1]
          t2[THEN conjunct2, THEN conjunct2, THEN conjunct1]
          t2[THEN conjunct2, THEN conjunct2, THEN conjunct2])
qed

end
